theory Spec2Isabelle
  imports Complex_Main
begin

section \<open>Repo Guardian: a shallow embedding of remind-reviewers.js\<close>

text \<open>
  The script talks to a remote platform through the \<open>octokit\<close> client and writes log
  lines. Both are made explicit: every function of the script that performs a remote call
  or logs returns the list of events it produced, in order, together with its outcome.
  The remote platform is a record of response functions; a response is either the data
  of a successful call or the error the client raises.
\<close>

subsection \<open>Strings\<close>

text \<open>
  A JavaScript string is a sequence of UTF-16 code units and is kept as the list of
  them, each a number. \<open>js\<close> gives the code units of a literal written with the
  characters of ASCII.
\<close>

type_synonym js_string = "nat list"

definition js :: "string \<Rightarrow> js_string" where
  "js s = map of_char s"

subsection \<open>Errors\<close>

text \<open>
  Two kinds of JavaScript errors occur: a plain \<open>new Error(message)\<close>, which has no
  \<open>status\<close> property, and the client's request error, which carries the HTTP status.
\<close>

datatype js_error = Error js_string | RequestError nat js_string

fun status :: "js_error \<Rightarrow> nat option" where
  "status (Error m) = None"
| "status (RequestError s m) = Some s"

fun message :: "js_error \<Rightarrow> js_string" where
  "message (Error m) = m"
| "message (RequestError s m) = m"

subsection \<open>Rendered text\<close>

text \<open>
  A template literal is kept as the list of its pieces, so that number formatting
  (\<open>toFixed(1)\<close>, the default rendering of a float) need not be modelled: \<open>Str\<close> is
  literal or substituted text, \<open>Num\<close> an integer substituted with \<open>${...}\<close>, \<open>Flt\<close> a
  number rendered by default and \<open>Fixed1\<close> a number rendered by \<open>toFixed(1)\<close>.
\<close>

datatype piece = Str js_string | Num nat | Flt real | Fixed1 real

type_synonym rendered = "piece list"

text \<open>\<open>e.status || e.message\<close>: the status when it is present and not 0, else the message.\<close>

fun status_or_message :: "js_error \<Rightarrow> rendered" where
  "status_or_message (Error m) = [Str m]"
| "status_or_message (RequestError s m) = (if s = 0 then [Str m] else [Num s])"

subsection \<open>Data\<close>

record repo_ref =
  owner :: js_string
  name :: js_string

text \<open>An item of a repository listing: \<open>r.owner.login\<close>, \<open>r.name\<close>, \<open>r.fork\<close>, \<open>r.archived\<close>.\<close>

record repo_info =
  owner_login :: js_string
  repo_name :: js_string
  fork :: bool
  archived :: bool

text \<open>
  A pull request as the script reads it. \<open>created_at\<close> and \<open>updated_at\<close> are the
  milliseconds \<open>new Date(...)\<close> yields; \<open>merged_at\<close> is \<open>None\<close> for \<open>null\<close>;
  \<open>head_ref\<close> is \<open>pr.head.ref\<close> and \<open>user_login\<close> is \<open>pr.user.login\<close>, both taken as
  present; \<open>requested_reviewers\<close> holds the reviewers' logins (empty for a missing
  array: the script skips both alike).
\<close>

record pull =
  number :: nat
  created_at :: int
  updated_at :: int
  merged_at :: "int option"
  head_ref :: js_string
  user_login :: js_string
  requested_reviewers :: "js_string list"

text \<open>A review: the login of \<open>r.user\<close>, or \<open>None\<close> when \<open>r.user\<close> is null.\<close>

record review =
  user :: "js_string option"

datatype pr_state = Open | Closed

subsection \<open>Events and outcomes\<close>

datatype event =
    Logged "rendered list"
  | ListForOrg js_string nat
  | ListForUser js_string nat
  | PullsList js_string js_string pr_state nat
  | ListReviews js_string js_string nat
  | GetRef js_string js_string js_string
  | CreateComment js_string js_string nat rendered

text \<open>
  The pagination loops are \<open>while (true)\<close> loops and need not end, so they are given
  fuel: the largest number of pages one loop may request. \<open>OutOfFuel\<close> is the outcome
  of a loop that is still running when the fuel is used up; the events are then those
  produced so far.
\<close>

datatype 'a outcome = Ok 'a | Throw js_error | OutOfFuel

type_synonym 'a io = "event list \<times> 'a outcome"

text \<open>\<open>await m; k\<close>: run \<open>m\<close>, and when it returns run \<open>k\<close> on its value.\<close>

definition seq :: "'a io \<Rightarrow> ('a \<Rightarrow> 'b io) \<Rightarrow> 'b io" where
  "seq m k =
     (case m of
        (tr, Ok v) \<Rightarrow> (case k v of (tr', r) \<Rightarrow> (tr @ tr', r))
      | (tr, Throw e) \<Rightarrow> (tr, Throw e)
      | (tr, OutOfFuel) \<Rightarrow> (tr, OutOfFuel))"

text \<open>A remote call: the event of the call, then the data or the error raised.\<close>

definition call :: "event \<Rightarrow> js_error + 'a \<Rightarrow> 'a io" where
  "call ev response = (case response of Inl e \<Rightarrow> ([ev], Throw e) | Inr v \<Rightarrow> ([ev], Ok v))"

text \<open>\<open>log(...args)\<close>; the timestamp the script puts in front is left out.\<close>

definition log :: "rendered list \<Rightarrow> unit io" where
  "log args = ([Logged args], Ok ())"

subsection \<open>Configuration and the remote platform\<close>

text \<open>
  The configuration constants of the script. \<open>REPOS\<close> is \<open>process.env.REPOS || ''\<close>,
  \<open>OWNER\<close> is \<open>process.env.OWNER || process.env.ORG || ''\<close>; the numbers and flags are
  taken as parsed.
\<close>

record config =
  OWNER :: js_string
  REPOS :: js_string
  REVIEW_HOURS :: real
  MAX_CLOSED_LOOKBACK_DAYS :: int
  DRY_RUN :: bool
  INCLUDE_FORKS :: bool
  INCLUDE_ARCHIVED :: bool

text \<open>
  What the script reads from outside: the responses of the client's methods, by their
  arguments (the page included), and \<open>Date.now()\<close> in milliseconds, taken as one
  instant for a scan.
\<close>

record world =
  repos_listForOrg :: "js_string \<Rightarrow> nat \<Rightarrow> js_error + repo_info list"
  repos_listForUser :: "js_string \<Rightarrow> nat \<Rightarrow> js_error + repo_info list"
  pulls_list :: "js_string \<Rightarrow> js_string \<Rightarrow> pr_state \<Rightarrow> nat \<Rightarrow> js_error + pull list"
  pulls_listReviews :: "js_string \<Rightarrow> js_string \<Rightarrow> nat \<Rightarrow> js_error + review list"
  git_getRef :: "js_string \<Rightarrow> js_string \<Rightarrow> js_string \<Rightarrow> js_error + unit"
  issues_createComment :: "js_string \<Rightarrow> js_string \<Rightarrow> nat \<Rightarrow> rendered \<Rightarrow> js_error + unit"
  Date_now :: int

subsection \<open>Arithmetic on doubles\<close>

text \<open>
  A JavaScript number is an IEEE 754 double. The script subtracts two time values
  (integers of magnitude at most \<open>8.64e15\<close>) and divides the difference by \<open>36e5\<close>;
  both operations round their exact result to the nearest double, ties to the even
  significand. A finite double is kept as the real number it denotes, an integral one
  as an integer. Neither operation can overflow or reach the subnormal range on
  integers that are doubles, so the exponent is not bounded here.

  \<open>bitlen n\<close> is the number of binary digits of \<open>n\<close>; \<open>round_even a b\<close> is the integer
  nearest to \<open>a / b\<close>, the even one of two that are equally near; \<open>exponent a b\<close> is the
  integer \<open>e\<close> with \<open>2 ^ e \<le> a / b < 2 ^ (e + 1)\<close>, for positive \<open>a\<close> and \<open>b\<close>.
\<close>

fun bitlen :: "nat \<Rightarrow> nat" where
  "bitlen n = (if n = 0 then 0 else Suc (bitlen (n div 2)))"

definition round_even :: "nat \<Rightarrow> nat \<Rightarrow> nat" where
  "round_even a b =
     (let q = a div b; r = a mod b in
      if 2 * r < b then q else if b < 2 * r then q + 1 else if even q then q else q + 1)"

definition exponent :: "nat \<Rightarrow> nat \<Rightarrow> int" where
  "exponent a b =
     (let d = int (bitlen a) - int (bitlen b) in
      if (if 0 \<le> d then b * 2 ^ nat d \<le> a else b \<le> a * 2 ^ nat (- d)) then d else d - 1)"

text \<open>The double nearest to \<open>a / b\<close>, for positive \<open>a\<close> and \<open>b\<close>: a significand of 53 binary
  digits, so the last digit kept has the weight \<open>2 ^ (exponent a b - 52)\<close>.\<close>

definition nearest_double :: "nat \<Rightarrow> nat \<Rightarrow> real" where
  "nearest_double a b =
     (let s = exponent a b - 52 in
      if 0 \<le> s then real (round_even a (b * 2 ^ nat s) * 2 ^ nat s)
      else real (round_even (a * 2 ^ nat (- s)) b) / 2 ^ nat (- s))"

text \<open>\<open>x - y\<close> for two integral doubles: the integral double nearest to the difference
  (the difference itself when it has at most 53 binary digits).\<close>

definition js_minus :: "int \<Rightarrow> int \<Rightarrow> int" where
  "js_minus x y =
     (let d = x - y; n = nat \<bar>d\<bar>; s = bitlen n - 53;
          m = int (round_even n (2 ^ s) * 2 ^ s)
      in if d < 0 then - m else m)"

text \<open>\<open>x / y\<close> for an integral double \<open>x\<close> and a positive integral double \<open>y\<close>.\<close>

definition js_divide :: "int \<Rightarrow> int \<Rightarrow> real" where
  "js_divide x y =
     (if x = 0 then 0
      else if 0 < x then nearest_double (nat x) (nat y)
      else - nearest_double (nat (- x)) (nat y))"

subsection \<open>notifyInactiveReviewers\<close>

text \<open>\<open>reviews.find(r => r.user && r.user.login === reviewer.login)\<close>\<close>

definition reviewByUser :: "review list \<Rightarrow> js_string \<Rightarrow> review option" where
  "reviewByUser reviews reviewer =
     find (\<lambda>r. case user r of None \<Rightarrow> False | Some login \<Rightarrow> login = reviewer) reviews"

text \<open>\<open>(Date.now() - new Date(pr.created_at)) / 36e5\<close>\<close>

definition hoursSinceRequested :: "world \<Rightarrow> pull \<Rightarrow> real" where
  "hoursSinceRequested w pr = js_divide (js_minus (Date_now w) (created_at pr)) 3600000"

definition reviewer_body :: "config \<Rightarrow> world \<Rightarrow> pull \<Rightarrow> js_string \<Rightarrow> rendered" where
  "reviewer_body cfg w pr reviewer =
     [Str (js ''@''), Str reviewer, Str (js '' You were requested for review ''),
      Fixed1 (hoursSinceRequested w pr), Str (js '' hours ago (threshold ''),
      Flt (REVIEW_HOURS cfg), Str (js ''h). Please review this PR.'')]"

definition dry_run_line :: "pull \<Rightarrow> rendered \<Rightarrow> rendered" where
  "dry_run_line pr body = [Str (js ''[DRY_RUN] Would comment on PR #''), Num (number pr), Str (js '': '')] @ body"

text \<open>The body of the loop over \<open>pr.requested_reviewers\<close> (lines 119 to 130).\<close>

definition remind_reviewer ::
  "config \<Rightarrow> world \<Rightarrow> js_string \<Rightarrow> js_string \<Rightarrow> pull \<Rightarrow> review list \<Rightarrow> js_string \<Rightarrow> unit io" where
  "remind_reviewer cfg w own repo pr reviews reviewer =
     (if reviewByUser reviews reviewer = None \<and> hoursSinceRequested w pr > REVIEW_HOURS cfg
      then
        (let body = reviewer_body cfg w pr reviewer in
         if DRY_RUN cfg then log [dry_run_line pr body]
         else
           seq (call (CreateComment own repo (number pr) body)
                  (issues_createComment w own repo (number pr) body))
             (\<lambda>_. log [[Str (js ''Commented reminder on PR #''), Num (number pr),
                         Str (js '' for @''), Str reviewer]]))
      else ([], Ok ()))"

fun for_reviewers ::
  "config \<Rightarrow> world \<Rightarrow> js_string \<Rightarrow> js_string \<Rightarrow> pull \<Rightarrow> review list \<Rightarrow> js_string list \<Rightarrow> unit io" where
  "for_reviewers cfg w own repo pr reviews [] = ([], Ok ())"
| "for_reviewers cfg w own repo pr reviews (reviewer # rest) =
     seq (remind_reviewer cfg w own repo pr reviews reviewer)
       (\<lambda>_. for_reviewers cfg w own repo pr reviews rest)"

text \<open>The body of the loop over the pull requests of a page (lines 116 to 131).\<close>

definition check_reviewers :: "config \<Rightarrow> world \<Rightarrow> js_string \<Rightarrow> js_string \<Rightarrow> pull \<Rightarrow> unit io" where
  "check_reviewers cfg w own repo pr =
     (if requested_reviewers pr = [] then ([], Ok ())
      else
        seq (call (ListReviews own repo (number pr)) (pulls_listReviews w own repo (number pr)))
          (\<lambda>reviews. for_reviewers cfg w own repo pr reviews (requested_reviewers pr)))"

fun for_open_prs :: "config \<Rightarrow> world \<Rightarrow> js_string \<Rightarrow> js_string \<Rightarrow> pull list \<Rightarrow> unit io" where
  "for_open_prs cfg w own repo [] = ([], Ok ())"
| "for_open_prs cfg w own repo (pr # rest) =
     seq (check_reviewers cfg w own repo pr) (\<lambda>_. for_open_prs cfg w own repo rest)"

text \<open>The \<open>while (true)\<close> loop over the pages of open pull requests.\<close>

fun open_pages :: "nat \<Rightarrow> config \<Rightarrow> world \<Rightarrow> js_string \<Rightarrow> js_string \<Rightarrow> nat \<Rightarrow> unit io" where
  "open_pages 0 cfg w own repo page = ([], OutOfFuel)"
| "open_pages (Suc fuel) cfg w own repo page =
     seq (call (PullsList own repo Open page) (pulls_list w own repo Open page))
       (\<lambda>prs. if prs = [] then ([], Ok ())
               else seq (for_open_prs cfg w own repo prs)
                      (\<lambda>_. open_pages fuel cfg w own repo (page + 1)))"

definition notifyInactiveReviewers ::
  "nat \<Rightarrow> config \<Rightarrow> world \<Rightarrow> js_string \<Rightarrow> js_string \<Rightarrow> unit io" where
  "notifyInactiveReviewers fuel cfg w own repo =
     seq (log [[Str (js ''[''), Str own, Str (js ''/''), Str repo,
                Str (js ''] Checking open PRs for inactive reviewers (> ''),
                Flt (REVIEW_HOURS cfg), Str (js ''h)'')]])
       (\<lambda>_. open_pages fuel cfg w own repo 1)"

text \<open>The reminder of a reviewer as it shows in the events: the dry-run log line, or the
  call that posts the comment.\<close>

definition reviewer_reminder :: "config \<Rightarrow> world \<Rightarrow> js_string \<Rightarrow> js_string \<Rightarrow> pull \<Rightarrow> js_string \<Rightarrow> event" where
  "reviewer_reminder cfg w own repo pr reviewer =
     (if DRY_RUN cfg then Logged [dry_run_line pr (reviewer_body cfg w pr reviewer)]
      else CreateComment own repo (number pr) (reviewer_body cfg w pr reviewer))"

subsection \<open>notifyUndeletedBranches\<close>

text \<open>\<open>Date.now() - MAX_CLOSED_LOOKBACK_DAYS * 864e5\<close>\<close>

definition since :: "config \<Rightarrow> world \<Rightarrow> int" where
  "since cfg w = Date_now w - MAX_CLOSED_LOOKBACK_DAYS cfg * 86400000"

definition branch_body :: "pull \<Rightarrow> rendered" where
  "branch_body pr =
     [Str (js ''@''), Str (user_login pr), Str (js '' The PR was merged but the branch `''),
      Str (head_ref pr),
      Str (js ''` still exists. Please delete it if it's no longer needed.'')]"

text \<open>The \<open>try\<close> block (lines 152 to 159): either call may raise.\<close>

definition try_branch :: "config \<Rightarrow> world \<Rightarrow> js_string \<Rightarrow> js_string \<Rightarrow> pull \<Rightarrow> unit io" where
  "try_branch cfg w own repo pr =
     seq (call (GetRef own repo ((js ''heads/'') @ head_ref pr))
            (git_getRef w own repo ((js ''heads/'') @ head_ref pr)))
       (\<lambda>_. let body = branch_body pr in
             if DRY_RUN cfg then log [dry_run_line pr body]
             else
               seq (call (CreateComment own repo (number pr) body)
                      (issues_createComment w own repo (number pr) body))
                 (\<lambda>_. log [[Str (js ''Commented branch reminder on PR #''), Num (number pr)]]))"

text \<open>The \<open>catch\<close> block (lines 160 to 166): status 404 is ignored, anything else is logged.\<close>

definition catch_branch :: "js_string \<Rightarrow> unit io \<Rightarrow> unit io" where
  "catch_branch branchName m =
     (case m of
        (tr, Throw error) \<Rightarrow>
          if status error = Some 404 then (tr, Ok ())
          else (tr @ [Logged [[Str (js ''Error checking ref'')], [Str branchName],
                              status_or_message error]], Ok ())
      | (tr, r) \<Rightarrow> (tr, r))"

text \<open>
  The body of the loop over the pull requests of a page (lines 146 to 167); the value
  passed along and returned is the flag \<open>anyWithinWindow\<close>.
\<close>

definition check_branch ::
  "config \<Rightarrow> world \<Rightarrow> js_string \<Rightarrow> js_string \<Rightarrow> pull \<Rightarrow> bool \<Rightarrow> bool io" where
  "check_branch cfg w own repo pr anyWithinWindow =
     (if updated_at pr < since cfg w then ([], Ok anyWithinWindow)
      else if merged_at pr \<noteq> None
      then seq (catch_branch (head_ref pr) (try_branch cfg w own repo pr)) (\<lambda>_. ([], Ok True))
      else ([], Ok True))"

fun for_closed_prs ::
  "config \<Rightarrow> world \<Rightarrow> js_string \<Rightarrow> js_string \<Rightarrow> pull list \<Rightarrow> bool \<Rightarrow> bool io" where
  "for_closed_prs cfg w own repo [] anyWithinWindow = ([], Ok anyWithinWindow)"
| "for_closed_prs cfg w own repo (pr # rest) anyWithinWindow =
     seq (check_branch cfg w own repo pr anyWithinWindow)
       (\<lambda>any. for_closed_prs cfg w own repo rest any)"

text \<open>The \<open>while (true)\<close> loop over the pages of closed pull requests.\<close>

fun closed_pages :: "nat \<Rightarrow> config \<Rightarrow> world \<Rightarrow> js_string \<Rightarrow> js_string \<Rightarrow> nat \<Rightarrow> unit io" where
  "closed_pages 0 cfg w own repo page = ([], OutOfFuel)"
| "closed_pages (Suc fuel) cfg w own repo page =
     seq (call (PullsList own repo Closed page) (pulls_list w own repo Closed page))
       (\<lambda>prs. if prs = [] then ([], Ok ())
               else seq (for_closed_prs cfg w own repo prs False)
                      (\<lambda>anyWithinWindow.
                          if \<not> anyWithinWindow then ([], Ok ())
                          else closed_pages fuel cfg w own repo (page + 1)))"

definition notifyUndeletedBranches ::
  "nat \<Rightarrow> config \<Rightarrow> world \<Rightarrow> js_string \<Rightarrow> js_string \<Rightarrow> unit io" where
  "notifyUndeletedBranches fuel cfg w own repo =
     seq (log [[Str (js ''[''), Str own, Str (js ''/''), Str repo,
                Str (js ''] Checking merged PRs for undeleted branches (lookback ''),
                Flt (real_of_int (MAX_CLOSED_LOOKBACK_DAYS cfg)), Str (js ''d)'')]])
       (\<lambda>_. closed_pages fuel cfg w own repo 1)"

text \<open>The branch reminder as it shows in the events.\<close>

definition branch_reminder :: "config \<Rightarrow> js_string \<Rightarrow> js_string \<Rightarrow> pull \<Rightarrow> event" where
  "branch_reminder cfg own repo pr =
     (if DRY_RUN cfg then Logged [dry_run_line pr (branch_body pr)]
      else CreateComment own repo (number pr) (branch_body pr))"

subsection \<open>Resolving the repositories\<close>

text \<open>\<open>s.split(c)\<close> for a separator of one character: the empty string gives \<open>['']\<close>.\<close>

fun split :: "nat \<Rightarrow> js_string \<Rightarrow> js_string list" where
  "split c [] = [[]]"
| "split c (x # xs) =
     (if x = c then [] # split c xs
      else (case split c xs of [] \<Rightarrow> [[x]] | p # ps \<Rightarrow> (x # p) # ps))"

text \<open>
  The code units \<open>s.trim()\<close> removes from both ends: the white space U+0009, U+000B,
  U+000C, U+0020, U+00A0, U+1680, U+2000 to U+200A, U+202F, U+205F, U+3000 and U+FEFF,
  and the line terminators U+000A, U+000D, U+2028 and U+2029.
\<close>

definition is_space :: "nat \<Rightarrow> bool" where
  "is_space c =
     (c \<in> set [0x09, 0x0A, 0x0B, 0x0C, 0x0D, 0x20, 0xA0, 0x1680,
                0x2000, 0x2001, 0x2002, 0x2003, 0x2004, 0x2005, 0x2006, 0x2007, 0x2008,
                0x2009, 0x200A, 0x2028, 0x2029, 0x202F, 0x205F, 0x3000, 0xFEFF])"

definition trim :: "js_string \<Rightarrow> js_string" where
  "trim s = rev (dropWhile is_space (rev (dropWhile is_space s)))"

text \<open>\<open>(process.env.REPOS || '').split(',').map(r => r.trim()).filter(Boolean)\<close>\<close>

definition REPOS_RAW :: "config \<Rightarrow> js_string list" where
  "REPOS_RAW cfg = filter (\<lambda>r. r \<noteq> []) (map trim (split (of_char CHR '','') (REPOS cfg)))"

text \<open>The loop of \<open>parseExplicitRepos\<close> over the entries; \<open>parsed\<close> is the array built so far.\<close>

fun parse_entries :: "config \<Rightarrow> js_string list \<Rightarrow> repo_ref list \<Rightarrow> js_error + repo_ref list" where
  "parse_entries cfg [] parsed = Inr parsed"
| "parse_entries cfg (entry # rest) parsed =
     (if entry = [] then parse_entries cfg rest parsed
      else
        (let parts = split (of_char CHR ''/'') entry in
         if length parts = 1 then
           (if OWNER cfg = []
            then Inl (Error ((js ''Repository '') @ (js [CHR 0x27]) @ entry @ (js [CHR 0x27]) @
                   (js '' missing owner. Provide OWNER env var or use 'owner/repo' form.'')))
            else parse_entries cfg rest (parsed @ [\<lparr>owner = OWNER cfg, name = parts ! 0\<rparr>]))
         else if length parts = 2 then
           parse_entries cfg rest (parsed @ [\<lparr>owner = parts ! 0, name = parts ! 1\<rparr>])
         else Inl (Error ((js ''Invalid repo spec: '') @ (js [CHR 0x27]) @ entry @ (js [CHR 0x27]) @
                   (js ''. Use 'owner/repo' or 'repo'.'')))))"

text \<open>\<open>parseExplicitRepos\<close> is not \<open>async\<close> and calls nothing remote: it has no events.\<close>

definition parseExplicitRepos :: "config \<Rightarrow> js_error + repo_ref list" where
  "parseExplicitRepos cfg =
     (if REPOS_RAW cfg = [] then Inr [] else parse_entries cfg (REPOS_RAW cfg) [])"

text \<open>
  One round of the loop of \<open>autoDiscoverRepos\<close> up to the fetched page (lines 76 to 91):
  the organization listing is tried in every round; the result is the flag \<open>isOrg\<close>
  and \<open>data\<close> (\<open>None\<close> for \<open>undefined\<close>).
\<close>

definition fetch_repos ::
  "config \<Rightarrow> world \<Rightarrow> nat \<Rightarrow> bool \<Rightarrow> (bool \<times> repo_info list option) io" where
  "fetch_repos cfg w page isOrg =
     seq (case repos_listForOrg w (OWNER cfg) page of
            Inr data \<Rightarrow> ([ListForOrg (OWNER cfg) page], Ok (isOrg, Some data))
          | Inl err \<Rightarrow>
              if status err = Some 404 then ([ListForOrg (OWNER cfg) page], Ok (False, None))
              else ([ListForOrg (OWNER cfg) page], Throw err))
       (\<lambda>(isOrg', data).
           if \<not> isOrg'
           then seq (call (ListForUser (OWNER cfg) page) (repos_listForUser w (OWNER cfg) page))
                  (\<lambda>userData. ([], Ok (isOrg', Some userData)))
           else ([], Ok (isOrg', data)))"

text \<open>What one page adds to \<open>repos\<close> (lines 93 to 97).\<close>

definition kept :: "config \<Rightarrow> repo_info list \<Rightarrow> repo_ref list" where
  "kept cfg data =
     map (\<lambda>r. \<lparr>owner = owner_login r, name = repo_name r\<rparr>)
       (filter (\<lambda>r. (INCLUDE_ARCHIVED cfg \<or> \<not> archived r) \<and> (INCLUDE_FORKS cfg \<or> \<not> fork r)) data)"

fun discover_pages ::
  "nat \<Rightarrow> config \<Rightarrow> world \<Rightarrow> nat \<Rightarrow> bool \<Rightarrow> repo_ref list \<Rightarrow> repo_ref list io" where
  "discover_pages 0 cfg w page isOrg repos = ([], OutOfFuel)"
| "discover_pages (Suc fuel) cfg w page isOrg repos =
     seq (fetch_repos cfg w page isOrg)
       (\<lambda>(isOrg', data).
           case data of
             None \<Rightarrow> ([], Ok repos)
           | Some d \<Rightarrow>
               if d = [] then ([], Ok repos)
               else discover_pages fuel cfg w (page + 1) isOrg' (repos @ kept cfg d))"

definition autoDiscoverRepos :: "nat \<Rightarrow> config \<Rightarrow> world \<Rightarrow> repo_ref list io" where
  "autoDiscoverRepos fuel cfg w =
     (if OWNER cfg = []
      then ([], Throw (Error (js ''OWNER env var required when REPOS not provided.'')))
      else seq (log [[Str (js ''Auto-discovering repositories for owner'')], [Str (OWNER cfg)]])
             (\<lambda>_. discover_pages fuel cfg w 1 True []))"

definition listRepos :: "nat \<Rightarrow> config \<Rightarrow> world \<Rightarrow> repo_ref list io" where
  "listRepos fuel cfg w =
     (case parseExplicitRepos cfg of
        Inl e \<Rightarrow> ([], Throw e)
      | Inr explicit \<Rightarrow> if explicit \<noteq> [] then ([], Ok explicit) else autoDiscoverRepos fuel cfg w)"

subsection \<open>main\<close>

text \<open>\<open>xs.join(sep)\<close>\<close>

fun join :: "js_string \<Rightarrow> js_string list \<Rightarrow> js_string" where
  "join sep [] = []"
| "join sep [x] = x"
| "join sep (x # y # ys) = x @ sep @ join sep (y # ys)"

text \<open>What is run for one repository inside the \<open>try\<close> of \<open>main\<close>.\<close>

definition scan_repo :: "nat \<Rightarrow> config \<Rightarrow> world \<Rightarrow> repo_ref \<Rightarrow> unit io" where
  "scan_repo fuel cfg w r =
     seq (notifyInactiveReviewers fuel cfg w (owner r) (name r))
       (\<lambda>_. notifyUndeletedBranches fuel cfg w (owner r) (name r))"

text \<open>The \<open>catch\<close> of \<open>main\<close> (line 182).\<close>

definition repo_error_line :: "repo_ref \<Rightarrow> js_error \<Rightarrow> event" where
  "repo_error_line r e =
     Logged [[Str (js ''Error processing repo ''), Str (owner r), Str (js ''/''), Str (name r), Str (js '':'')],
             status_or_message e]"

definition catch_repo :: "repo_ref \<Rightarrow> unit io \<Rightarrow> unit io" where
  "catch_repo r m =
     (case m of
        (tr, Throw e) \<Rightarrow> (tr @ [repo_error_line r e], Ok ())
      | (tr, res) \<Rightarrow> (tr, res))"

fun for_repos :: "nat \<Rightarrow> config \<Rightarrow> world \<Rightarrow> repo_ref list \<Rightarrow> unit io" where
  "for_repos fuel cfg w [] = ([], Ok ())"
| "for_repos fuel cfg w (r # rest) =
     seq (catch_repo r (scan_repo fuel cfg w r)) (\<lambda>_. for_repos fuel cfg w rest)"

definition main :: "nat \<Rightarrow> config \<Rightarrow> world \<Rightarrow> unit io" where
  "main fuel cfg w =
     seq (listRepos fuel cfg w)
       (\<lambda>repos.
          seq (log [[Str (js ''Target repositories:'')],
                    [Str (join (js '', '') (map (\<lambda>r. owner r @ (js ''/'') @ name r) repos))]])
            (\<lambda>_. seq (for_repos fuel cfg w repos) (\<lambda>_. log [[Str (js ''Completed run'')]])))"

subsection \<open>Notions used to state the properties\<close>

text \<open>
  The reviews the platform returns for a pull request (none when the call fails; the
  script asks for them once, without paging), and what makes a reviewer due for a
  reminder: no review of theirs, and more hours than the threshold.
\<close>

definition reviews_of :: "world \<Rightarrow> js_string \<Rightarrow> js_string \<Rightarrow> pull \<Rightarrow> review list" where
  "reviews_of w own repo pr =
     (case pulls_listReviews w own repo (number pr) of Inl e \<Rightarrow> [] | Inr reviews \<Rightarrow> reviews)"

definition stale :: "config \<Rightarrow> world \<Rightarrow> review list \<Rightarrow> pull \<Rightarrow> js_string \<Rightarrow> bool" where
  "stale cfg w reviews pr reviewer \<longleftrightarrow>
     reviewByUser reviews reviewer = None \<and> hoursSinceRequested w pr > REVIEW_HOURS cfg"

text \<open>The open pull requests of the pages up to the first empty page.\<close>

fun open_prs :: "nat \<Rightarrow> world \<Rightarrow> js_string \<Rightarrow> js_string \<Rightarrow> nat \<Rightarrow> pull list" where
  "open_prs 0 w own repo page = []"
| "open_prs (Suc fuel) w own repo page =
     (case pulls_list w own repo Open page of
        Inl e \<Rightarrow> []
      | Inr prs \<Rightarrow> if prs = [] then [] else prs @ open_prs fuel w own repo (page + 1))"

text \<open>
  The closed pull requests of the pages the scan of the closed pull requests goes
  through: the pages up to the first one whose request fails or that holds no pull
  request within the window (an empty page is one), that page included. And the pull
  requests the scan is to remind of: merged, within the window, the head branch found.
\<close>

fun closed_prs :: "nat \<Rightarrow> config \<Rightarrow> world \<Rightarrow> js_string \<Rightarrow> js_string \<Rightarrow> nat \<Rightarrow> pull list" where
  "closed_prs 0 cfg w own repo page = []"
| "closed_prs (Suc fuel) cfg w own repo page =
     (case pulls_list w own repo Closed page of
        Inl e \<Rightarrow> []
      | Inr prs \<Rightarrow>
          if \<exists>p\<in>set prs. since cfg w \<le> updated_at p
          then prs @ closed_prs fuel cfg w own repo (page + 1) else prs)"

definition undeleted :: "config \<Rightarrow> world \<Rightarrow> js_string \<Rightarrow> js_string \<Rightarrow> pull \<Rightarrow> bool" where
  "undeleted cfg w own repo p \<longleftrightarrow>
     since cfg w \<le> updated_at p \<and> merged_at p \<noteq> None
     \<and> git_getRef w own repo ((js ''heads/'') @ head_ref p) = Inr ()"

text \<open>The events that are reminders: a call that posts a comment, or a dry-run line.\<close>

fun is_reminder :: "event \<Rightarrow> bool" where
  "is_reminder (CreateComment own repo n body) = True"
| "is_reminder (Logged args) =
     (case args of
        [line] \<Rightarrow> (case line of Str s # rest \<Rightarrow> s = (js ''[DRY_RUN] Would comment on PR #'') | _ \<Rightarrow> False)
      | _ \<Rightarrow> False)"
| "is_reminder _ = False"


text \<open>A run that ends by throwing \<open>e\<close>, with \<open>ev\<close> as its last event.\<close>

definition ends_in :: "event \<Rightarrow> js_error \<Rightarrow> 'a io \<Rightarrow> bool" where
  "ends_in ev e m \<longleftrightarrow> snd m = Throw e \<and> fst m \<noteq> [] \<and> last (fst m) = ev"

text \<open>A listing ends within the first \<open>fuel\<close> pages: one of them is empty, or its request fails.\<close>

definition ends_within :: "nat \<Rightarrow> world \<Rightarrow> js_string \<Rightarrow> js_string \<Rightarrow> pr_state \<Rightarrow> bool" where
  "ends_within fuel w own repo st \<longleftrightarrow>
     (\<exists>page\<in>set [1..<Suc fuel]. case pulls_list w own repo st page of Inl e \<Rightarrow> True | Inr prs \<Rightarrow> prs = [])"

text \<open>
  An entry of the explicit list that cannot be resolved: a bare name while no owner is
  configured, or more than two parts between slashes. And the repository an entry names
  otherwise: \<open>owner/name\<close>, a bare name taking the configured owner.
\<close>

definition bad_entry :: "config \<Rightarrow> js_string \<Rightarrow> bool" where
  "bad_entry cfg entry \<longleftrightarrow>
     (length (split (of_char CHR ''/'') entry) = 1 \<and> OWNER cfg = []) \<or> length (split (of_char CHR ''/'') entry) > 2"

definition parse_entry :: "config \<Rightarrow> js_string \<Rightarrow> repo_ref" where
  "parse_entry cfg entry =
     (let parts = split (of_char CHR ''/'') entry in
      if length parts = 1 then \<lparr>owner = OWNER cfg, name = parts ! 0\<rparr>
      else \<lparr>owner = parts ! 0, name = parts ! 1\<rparr>)"

text \<open>The page the user listing returns (empty when the call fails), and the same for the
  organization listing. The organization listing answers a request when it returns a
  page or fails with status 404.\<close>

definition user_page :: "world \<Rightarrow> js_string \<Rightarrow> nat \<Rightarrow> repo_info list" where
  "user_page w username page =
     (case repos_listForUser w username page of Inl e \<Rightarrow> [] | Inr data \<Rightarrow> data)"

definition org_page :: "world \<Rightarrow> js_string \<Rightarrow> nat \<Rightarrow> repo_info list" where
  "org_page w org page =
     (case repos_listForOrg w org page of Inl e \<Rightarrow> [] | Inr data \<Rightarrow> data)"

definition org_answers :: "world \<Rightarrow> js_string \<Rightarrow> nat \<Rightarrow> bool" where
  "org_answers w org page \<longleftrightarrow>
     (case repos_listForOrg w org page of Inl err \<Rightarrow> status err = Some 404 | Inr data \<Rightarrow> True)"

subsection \<open>Example runs\<close>

text \<open>
  An owner \<open>acme\<close> with the default thresholds, and a platform on which every listing
  is empty and every call succeeds; the clock stands at 100 days. Then the same
  configuration with a threshold of 13 hours, and in dry-run mode.
\<close>

definition cfg_acme :: config where
  "cfg_acme = \<lparr>OWNER = js ''acme'', REPOS = [], REVIEW_HOURS = 12, MAX_CLOSED_LOOKBACK_DAYS = 14,
     DRY_RUN = False, INCLUDE_FORKS = False, INCLUDE_ARCHIVED = False\<rparr>"

definition quiet :: world where
  "quiet = \<lparr>repos_listForOrg = (\<lambda>org page. Inr []),
     repos_listForUser = (\<lambda>username page. Inr []),
     pulls_list = (\<lambda>own repo st page. Inr []),
     pulls_listReviews = (\<lambda>own repo n. Inr []),
     git_getRef = (\<lambda>own repo ref. Inr ()),
     issues_createComment = (\<lambda>own repo n body. Inr ()),
     Date_now = 8640000000\<rparr>"



text \<open>
  An open pull request created 13 hours ago; on \<open>world_open\<close> it is the only one, and
  \<open>carol\<close> has reviewed it, \<open>bob\<close> has not. A second open pull request, with the reviewer
  \<open>erin\<close>; on \<open>world_forbidden\<close> both are open, nobody has reviewed, and every post of a
  comment fails with status 403.
\<close>

definition pr7 :: pull where
  "pr7 = \<lparr>number = 7, created_at = 8593200000, updated_at = 8593200000, merged_at = None,
     head_ref = js ''feature-x'', user_login = js ''alice'', requested_reviewers = [js ''bob'', js ''carol'']\<rparr>"


definition pr8 :: pull where
  "pr8 = pr7\<lparr>number := 8, requested_reviewers := [js ''erin'']\<rparr>"

definition world_forbidden :: world where
  "world_forbidden = quiet
     \<lparr>pulls_list := (\<lambda>own repo st page. if st = Open \<and> page = 1 then Inr [pr7, pr8] else Inr []),
      issues_createComment := (\<lambda>own repo n body. Inl (RequestError 403 (js ''Forbidden'')))\<rparr>"




text \<open>
  Closed pull requests: \<open>pr42\<close>, \<open>pr43\<close> and \<open>pr44\<close> were merged and updated two days ago,
  \<open>pr9\<close> thirty days ago. On \<open>world_closed\<close> page 1 of the closed pull requests holds
  \<open>pr42\<close> and \<open>pr9\<close>, every later page holds \<open>pr9\<close> alone. On \<open>world_refs\<close> page 1 holds
  \<open>pr42\<close>, \<open>pr43\<close>, \<open>pr44\<close> and \<open>pr9\<close>, the branch \<open>feature-x\<close> exists, \<open>gone\<close> is not
  found and any other lookup fails with status 500. On
  \<open>world_no_comment code\<close> every post of a comment fails with the status \<open>code\<close>.
\<close>

definition pr42 :: pull where
  "pr42 = \<lparr>number = 42, created_at = 8000000000, updated_at = 8467200000,
     merged_at = Some 8467200000, head_ref = js ''feature-x'', user_login = js ''alice'',
     requested_reviewers = []\<rparr>"

definition pr9 :: pull where
  "pr9 = \<lparr>number = 9, created_at = 6000000000, updated_at = 6048000000,
     merged_at = Some 6048000000, head_ref = js ''old-branch'', user_login = js ''dave'',
     requested_reviewers = []\<rparr>"

definition pr43 :: pull where
  "pr43 = pr42\<lparr>number := 43, head_ref := js ''gone''\<rparr>"

definition pr44 :: pull where
  "pr44 = pr42\<lparr>number := 44, head_ref := js ''broken''\<rparr>"

definition world_closed :: world where
  "world_closed = quiet
     \<lparr>pulls_list := (\<lambda>own repo st page.
         if st = Closed \<and> page = 1 then Inr [pr42, pr9]
         else if st = Closed then Inr [pr9] else Inr [])\<rparr>"

definition world_refs :: world where
  "world_refs = world_closed
     \<lparr>pulls_list := (\<lambda>own repo st page.
         if st = Closed \<and> page = 1 then Inr [pr42, pr43, pr44, pr9]
         else if st = Closed then Inr [pr9] else Inr []),
      git_getRef := (\<lambda>own repo ref.
         if ref = (js ''heads/feature-x'') then Inr ()
         else if ref = (js ''heads/gone'') then Inl (RequestError 404 (js ''Not Found''))
         else Inl (RequestError 500 (js ''Server Error'')))\<rparr>"

definition world_no_comment :: "nat \<Rightarrow> world" where
  "world_no_comment code = world_closed
     \<lparr>issues_createComment := (\<lambda>own repo n body. Inl (RequestError code (js ''failed'')))\<rparr>"

text \<open>
  Explicit lists: two repositories (on \<open>world_broken\<close> every listing of the pull
  requests of \<open>web\<close> fails with status 404); no owner and a blank list, or a list with a
  bare name; an entry of three parts; a blank list with the owner \<open>acme\<close>.
\<close>

definition cfg_two :: config where
  "cfg_two = cfg_acme\<lparr>REPOS := js ''web, acme/api''\<rparr>"

definition world_broken :: world where
  "world_broken = quiet
     \<lparr>pulls_list := (\<lambda>own repo st page.
         if repo = (js ''web'') then Inl (RequestError 404 (js ''Not Found'')) else Inr [])\<rparr>"

definition cfg_blank :: config where
  "cfg_blank = cfg_acme\<lparr>OWNER := [], REPOS := js '' , ''\<rparr>"

definition cfg_bare :: config where
  "cfg_bare = cfg_acme\<lparr>OWNER := [], REPOS := js ''acme/web,api''\<rparr>"

definition cfg_deep :: config where
  "cfg_deep = cfg_acme\<lparr>REPOS := js ''acme/web/extra''\<rparr>"

definition cfg_blank_acme :: config where
  "cfg_blank_acme = cfg_acme\<lparr>REPOS := js '' ,  ,''\<rparr>"

text \<open>
  A list of three entries of white space beyond ASCII: a no-break space (U+00A0); a
  space, an ideographic space (U+3000) and a tab; a line separator (U+2028) and a byte
  order mark (U+FEFF).
\<close>

definition cfg_nbsp :: config where
  "cfg_nbsp = cfg_acme\<lparr>REPOS := [0xA0, 0x2C, 0x20, 0x3000, 0x09, 0x2C, 0x2028, 0xFEFF]\<rparr>"

text \<open>
  A user account \<open>acme\<close>: the organization listing is not found on page 1 and would
  return a repository on later pages; the user listing has two pages, with a fork and an
  archived repository among its items.
\<close>

definition web_info :: repo_info where
  "web_info = \<lparr>owner_login = js ''acme'', repo_name = js ''web'', fork = False, archived = False\<rparr>"

definition fork_info :: repo_info where
  "fork_info = \<lparr>owner_login = js ''acme'', repo_name = js ''linux'', fork = True, archived = False\<rparr>"

definition attic_info :: repo_info where
  "attic_info = \<lparr>owner_login = js ''acme'', repo_name = js ''attic'', fork = False, archived = True\<rparr>"

definition org_info :: repo_info where
  "org_info = \<lparr>owner_login = js ''acme'', repo_name = js ''org-only'', fork = False, archived = False\<rparr>"

definition world_user :: world where
  "world_user = quiet
     \<lparr>repos_listForOrg := (\<lambda>org page.
         if page = 1 then Inl (RequestError 404 (js ''Not Found'')) else Inr [org_info]),
      repos_listForUser := (\<lambda>username page.
         if page = 1 then Inr [web_info, fork_info]
         else if page = 2 then Inr [attic_info, web_info] else Inr [])\<rparr>"

text \<open>
  The same user account on a bad day: from page 2 on the organization listing fails with
  status 500. And an organization \<open>acme\<close>, whose listing has one page.
\<close>

definition world_flaky :: world where
  "world_flaky = world_user
     \<lparr>repos_listForOrg := (\<lambda>org page.
         if page = 1 then Inl (RequestError 404 (js ''Not Found''))
         else Inl (RequestError 500 (js ''Server Error'')))\<rparr>"

definition world_org :: world where
  "world_org = quiet
     \<lparr>repos_listForOrg := (\<lambda>org page.
         if page = 1 then Inr [web_info, attic_info, fork_info, org_info] else Inr [])\<rparr>"

section \<open>Properties\<close>

subsection \<open>Strings\<close>

lemma js_inject [simp]: "js a = js b \<longleftrightarrow> a = b"
  by (simp add: js_def inj_map_eq_map inj_on_def)

lemma js_Nil [simp]: "js s = [] \<longleftrightarrow> s = []" "[] = js s \<longleftrightarrow> s = []"
  by (auto simp: js_def)

lemma js_append [simp]: "js a @ js b = js (a @ b)"
  by (simp add: js_def)

subsection \<open>Sequencing\<close>

lemma fst_seq: "fst (seq m k) = (case snd m of Ok v \<Rightarrow> fst m @ fst (k v) | _ \<Rightarrow> fst m)"
  by (cases m; cases "snd m") (auto simp: seq_def split: prod.splits outcome.splits)

lemma snd_seq: "snd (seq m k) = (case snd m of Ok v \<Rightarrow> snd (k v) | Throw e \<Rightarrow> Throw e | OutOfFuel \<Rightarrow> OutOfFuel)"
  by (cases m; cases "snd m") (auto simp: seq_def split: prod.splits outcome.splits)



lemma fst_call: "fst (call ev r) = [ev]"
  by (simp add: call_def split: sum.splits)

lemma snd_call: "snd (call ev r) = (case r of Inl e \<Rightarrow> Throw e | Inr v \<Rightarrow> Ok v)"
  by (simp add: call_def split: sum.splits)

subsection \<open>Arithmetic on doubles\<close>

text \<open>The digits are counted on numerals only, so that rewriting ends.\<close>

declare bitlen.simps [simp del]

lemma bitlen_0 [simp]: "bitlen 0 = 0"
  by (simp add: bitlen.simps)

lemma bitlen_1 [simp]: "bitlen (Suc 0) = Suc 0"
  by (simp add: bitlen.simps)

lemma bitlen_numeral [simp]: "bitlen (numeral k) = Suc (bitlen (numeral k div 2))"
  by (subst bitlen.simps) simp

lemmas double_defs = js_minus_def js_divide_def nearest_double_def exponent_def round_even_def
  Let_def

text \<open>Some quotients, against the doubles JavaScript prints for them.\<close>

lemma js_divide_examples:
  "js_divide 46800000 3600000 = 13"
  "js_divide 1080000 3600000 = 5404319552844595 / 2 ^ 54"
  "js_divide 1 3 = 6004799503160661 / 2 ^ 54"
  "js_divide 1 10 = 3602879701896397 / 2 ^ 55"
  "js_divide (- 7) 2 = - 7 / 2"
  "js_divide 1 3600000 = 5247073869855161 / 2 ^ 74"
  by (simp_all add: double_defs)

lemma js_minus_examples:
  "js_minus 8640000000 8593200000 = 46800000"
  "js_minus 8593200000 8640000000 = - 46800000"
  "js_minus (2 ^ 53) (- 1) = 2 ^ 53"
  "js_minus (2 ^ 53 + 2) (- 1) = 2 ^ 53 + 4"
  "js_minus 8640000000000000 (- 8640000000000000) = 17280000000000000"
  by (simp_all add: double_defs)

lemma hours_13: "Date_now w - created_at pr = 46800000 \<Longrightarrow> hoursSinceRequested w pr = 13"
  by (simp add: hoursSinceRequested_def double_defs)


subsection \<open>Reminders to reviewers\<close>







lemma check_reviewers_none:
  "requested_reviewers pr = [] \<Longrightarrow> check_reviewers cfg w own repo pr = ([], Ok ())"
  by (simp add: check_reviewers_def)







lemma open_pages_Inl:
  "pulls_list w own repo Open page = Inl e \<Longrightarrow>
   open_pages (Suc fuel) cfg w own repo page = ([PullsList own repo Open page], Throw e)"
  by (simp add: call_def seq_def)

lemma open_pages_empty:
  "pulls_list w own repo Open page = Inr [] \<Longrightarrow>
   open_pages (Suc fuel) cfg w own repo page = ([PullsList own repo Open page], Ok ())"
  by (simp add: call_def seq_def)

lemma open_pages_more:
  "pulls_list w own repo Open page = Inr prs \<Longrightarrow> prs \<noteq> [] \<Longrightarrow>
   open_pages (Suc fuel) cfg w own repo page =
     seq ([PullsList own repo Open page], Ok ())
       (\<lambda>_. seq (for_open_prs cfg w own repo prs) (\<lambda>_. open_pages fuel cfg w own repo (page + 1)))"
  by (simp add: call_def seq_def)







lemmas forbidden_defs = notifyInactiveReviewers_def seq_def call_def log_def check_reviewers_def
  remind_reviewer_def reviewByUser_def reviewer_body_def
  reviewer_reminder_def reviews_of_def stale_def cfg_acme_def quiet_def pr7_def pr8_def
  world_forbidden_def js_def


subsection \<open>Branch clean-up\<close>

lemma try_branch_Inl:
  "git_getRef w own repo ((js ''heads/'') @ head_ref pr) = Inl e \<Longrightarrow>
   try_branch cfg w own repo pr = ([GetRef own repo ((js ''heads/'') @ head_ref pr)], Throw e)"
  by (simp add: try_branch_def call_def seq_def)

lemma try_branch_dry:
  "git_getRef w own repo ((js ''heads/'') @ head_ref pr) = Inr u \<Longrightarrow> DRY_RUN cfg \<Longrightarrow>
   try_branch cfg w own repo pr =
     ([GetRef own repo ((js ''heads/'') @ head_ref pr), Logged [dry_run_line pr (branch_body pr)]], Ok ())"
  by (simp add: try_branch_def call_def seq_def log_def)

lemma try_branch_live_Inr:
  "git_getRef w own repo ((js ''heads/'') @ head_ref pr) = Inr u \<Longrightarrow> \<not> DRY_RUN cfg \<Longrightarrow>
   issues_createComment w own repo (number pr) (branch_body pr) = Inr u' \<Longrightarrow>
   try_branch cfg w own repo pr =
     ([GetRef own repo ((js ''heads/'') @ head_ref pr),
       CreateComment own repo (number pr) (branch_body pr),
       Logged [[Str (js ''Commented branch reminder on PR #''), Num (number pr)]]], Ok ())"
  by (simp add: try_branch_def call_def seq_def log_def)

lemma try_branch_live_Inl:
  "git_getRef w own repo ((js ''heads/'') @ head_ref pr) = Inr u \<Longrightarrow> \<not> DRY_RUN cfg \<Longrightarrow>
   issues_createComment w own repo (number pr) (branch_body pr) = Inl e \<Longrightarrow>
   try_branch cfg w own repo pr =
     ([GetRef own repo ((js ''heads/'') @ head_ref pr),
       CreateComment own repo (number pr) (branch_body pr)], Throw e)"
  by (simp add: try_branch_def call_def seq_def log_def)

lemma try_branch_cases:
  obtains (ref_fails) e where "git_getRef w own repo ((js ''heads/'') @ head_ref pr) = Inl e"
  | (dry) "git_getRef w own repo ((js ''heads/'') @ head_ref pr) = Inr ()" "DRY_RUN cfg"
  | (posted) "git_getRef w own repo ((js ''heads/'') @ head_ref pr) = Inr ()" "\<not> DRY_RUN cfg"
      "issues_createComment w own repo (number pr) (branch_body pr) = Inr ()"
  | (post_fails) e where "git_getRef w own repo ((js ''heads/'') @ head_ref pr) = Inr ()" "\<not> DRY_RUN cfg"
      "issues_createComment w own repo (number pr) (branch_body pr) = Inl e"
  by (cases "git_getRef w own repo ((js ''heads/'') @ head_ref pr)";
      cases "issues_createComment w own repo (number pr) (branch_body pr)";
      cases "DRY_RUN cfg") auto

lemma catch_branch_Throw:
  "catch_branch b (tr, Throw e) =
     (if status e = Some 404 then (tr, Ok ())
      else (tr @ [Logged [[Str (js ''Error checking ref'')], [Str b], status_or_message e]], Ok ()))"
  by (simp add: catch_branch_def)

lemma catch_branch_Ok: "catch_branch b (tr, Ok v) = (tr, Ok v)"
  by (simp add: catch_branch_def)

lemma snd_caught_branch: "snd (catch_branch b (try_branch cfg w own repo pr)) = Ok ()"
  by (cases rule: try_branch_cases [where w=w and own=own and repo=repo and pr=pr and cfg=cfg])
     (simp_all add: try_branch_Inl try_branch_dry try_branch_live_Inr try_branch_live_Inl
        catch_branch_Throw catch_branch_Ok)

lemma GetRef_caught_branch:
  "GetRef a b ref \<in> set (fst (catch_branch br (try_branch cfg w own repo pr))) \<Longrightarrow>
   a = own \<and> b = repo \<and> ref = (js ''heads/'') @ head_ref pr"
  by (cases rule: try_branch_cases [where w=w and own=own and repo=repo and pr=pr and cfg=cfg])
     (auto simp: try_branch_Inl try_branch_dry try_branch_live_Inr try_branch_live_Inl
        catch_branch_Throw catch_branch_Ok split: if_splits)

lemma check_branch_old:
  "updated_at pr < since cfg w \<Longrightarrow> check_branch cfg w own repo pr any = ([], Ok any)"
  by (simp add: check_branch_def)

lemma check_branch_unmerged:
  "since cfg w \<le> updated_at pr \<Longrightarrow> merged_at pr = None \<Longrightarrow>
   check_branch cfg w own repo pr any = ([], Ok True)"
  by (simp add: check_branch_def)

lemma check_branch_merged:
  "since cfg w \<le> updated_at pr \<Longrightarrow> merged_at pr \<noteq> None \<Longrightarrow>
   check_branch cfg w own repo pr any =
     (fst (catch_branch (head_ref pr) (try_branch cfg w own repo pr)), Ok True)"
  using snd_caught_branch [of "head_ref pr" cfg w own repo pr]
  by (cases "catch_branch (head_ref pr) (try_branch cfg w own repo pr)")
     (simp add: check_branch_def seq_def)

lemma snd_check_branch:
  "snd (check_branch cfg w own repo pr any) = Ok (any \<or> since cfg w \<le> updated_at pr)"
  by (cases "updated_at pr < since cfg w"; cases "merged_at pr = None")
     (simp_all add: check_branch_old check_branch_unmerged check_branch_merged)

lemma GetRef_check_branch:
  assumes "GetRef a b ref \<in> set (fst (check_branch cfg w own repo pr any))"
  shows "a = own \<and> b = repo \<and> since cfg w \<le> updated_at pr \<and> merged_at pr \<noteq> None
         \<and> ref = (js ''heads/'') @ head_ref pr"
proof (cases "updated_at pr < since cfg w")
  case True
  with assms show ?thesis by (simp add: check_branch_old)
next
  case False
  then have inw: "since cfg w \<le> updated_at pr" by simp
  show ?thesis
  proof (cases "merged_at pr = None")
    case True
    with assms inw show ?thesis by (simp add: check_branch_unmerged)
  next
    case False
    with assms inw GetRef_caught_branch [of a b ref "head_ref pr" cfg w own repo pr]
    show ?thesis by (simp add: check_branch_merged)
  qed
qed

lemma for_closed_prs_Cons:
  "for_closed_prs cfg w own repo (pr # rest) any =
     (fst (check_branch cfg w own repo pr any)
        @ fst (for_closed_prs cfg w own repo rest (any \<or> since cfg w \<le> updated_at pr)),
      snd (for_closed_prs cfg w own repo rest (any \<or> since cfg w \<le> updated_at pr)))"
  using snd_check_branch [of cfg w own repo pr any]
  by (cases "check_branch cfg w own repo pr any") (simp add: seq_def split: prod.splits)

lemma snd_for_closed_prs:
  "snd (for_closed_prs cfg w own repo prs any) = Ok (any \<or> (\<exists>p\<in>set prs. since cfg w \<le> updated_at p))"
proof (induction prs arbitrary: any)
  case Nil
  show ?case by simp
next
  case (Cons pr prs)
  show ?case unfolding for_closed_prs_Cons by (auto simp: Cons.IH)
qed

lemma GetRef_for_closed_prs:
  "GetRef a b ref \<in> set (fst (for_closed_prs cfg w own repo prs any)) \<Longrightarrow>
   a = own \<and> b = repo \<and>
   (\<exists>p\<in>set prs. since cfg w \<le> updated_at p \<and> merged_at p \<noteq> None \<and> ref = (js ''heads/'') @ head_ref p)"
proof (induction prs arbitrary: any)
  case Nil
  then show ?case by simp
next
  case (Cons pr prs)
  from Cons.prems have "GetRef a b ref \<in> set (fst (check_branch cfg w own repo pr any))
      \<or> GetRef a b ref \<in> set (fst (for_closed_prs cfg w own repo prs (any \<or> since cfg w \<le> updated_at pr)))"
    unfolding for_closed_prs_Cons by simp
  then show ?case
  proof
    assume "GetRef a b ref \<in> set (fst (check_branch cfg w own repo pr any))"
    from GetRef_check_branch [OF this] show ?thesis by simp
  next
    assume "GetRef a b ref \<in> set (fst (for_closed_prs cfg w own repo prs (any \<or> since cfg w \<le> updated_at pr)))"
    from Cons.IH [OF this] show ?thesis by auto
  qed
qed

lemma closed_pages_Inl:
  "pulls_list w own repo Closed page = Inl e \<Longrightarrow>
   closed_pages (Suc fuel) cfg w own repo page = ([PullsList own repo Closed page], Throw e)"
  by (simp add: call_def seq_def)

lemma old_page_silent:
  "\<forall>p\<in>set prs. updated_at p < since cfg w \<Longrightarrow> fst (for_closed_prs cfg w own repo prs any) = []"
  by (induction prs arbitrary: any) (simp_all add: for_closed_prs_Cons check_branch_old del: for_closed_prs.simps(2))

lemma closed_pages_stop:
  assumes "pulls_list w own repo Closed page = Inr prs"
    and "\<forall>p\<in>set prs. updated_at p < since cfg w"
  shows "closed_pages (Suc fuel) cfg w own repo page = ([PullsList own repo Closed page], Ok ())"
proof -
  from assms(2) have "snd (for_closed_prs cfg w own repo prs False) = Ok False"
    by (auto simp: snd_for_closed_prs)
  moreover from assms(2) have "fst (for_closed_prs cfg w own repo prs False) = []"
    by (rule old_page_silent)
  ultimately have "for_closed_prs cfg w own repo prs False = ([], Ok False)"
    by (simp add: prod_eq_iff)
  with assms(1) show ?thesis
    by (simp add: call_def seq_def)
qed

lemma closed_pages_continue:
  assumes "pulls_list w own repo Closed page = Inr prs"
    and "\<exists>p\<in>set prs. since cfg w \<le> updated_at p"
  shows "closed_pages (Suc fuel) cfg w own repo page =
     (PullsList own repo Closed page # fst (for_closed_prs cfg w own repo prs False)
        @ fst (closed_pages fuel cfg w own repo (page + 1)),
      snd (closed_pages fuel cfg w own repo (page + 1)))"
proof -
  from assms(2) have "snd (for_closed_prs cfg w own repo prs False) = Ok True"
    by (simp add: snd_for_closed_prs)
  moreover from assms(2) have "prs \<noteq> []" by auto
  ultimately show ?thesis using assms(1)
    by (cases "for_closed_prs cfg w own repo prs False")
       (simp add: call_def seq_def split: prod.splits)
qed

lemma GetRef_closed_pages:
  "GetRef a b ref \<in> set (fst (closed_pages fuel cfg w own repo page)) \<Longrightarrow>
   \<exists>page' prs p. pulls_list w own repo Closed page' = Inr prs \<and> p \<in> set prs \<and>
      since cfg w \<le> updated_at p \<and> merged_at p \<noteq> None \<and> ref = (js ''heads/'') @ head_ref p"
proof (induction fuel arbitrary: page)
  case 0
  then show ?case by simp
next
  case (Suc fuel)
  show ?case
  proof (cases "pulls_list w own repo Closed page")
    case (Inl e)
    from Suc.prems show ?thesis unfolding closed_pages_Inl [OF Inl] by simp
  next
    case (Inr prs)
    show ?thesis
    proof (cases "\<forall>p\<in>set prs. updated_at p < since cfg w")
      case True
      from Suc.prems show ?thesis unfolding closed_pages_stop [OF Inr True] by simp
    next
      case False
      then have "\<exists>p\<in>set prs. since cfg w \<le> updated_at p" by (meson linorder_not_less)
      from Suc.prems have "GetRef a b ref \<in> set (fst (for_closed_prs cfg w own repo prs False))
          \<or> GetRef a b ref \<in> set (fst (closed_pages fuel cfg w own repo (page + 1)))"
        unfolding closed_pages_continue [OF Inr \<open>\<exists>p\<in>set prs. since cfg w \<le> updated_at p\<close>] by simp
      then show ?thesis
      proof
        assume "GetRef a b ref \<in> set (fst (for_closed_prs cfg w own repo prs False))"
        from GetRef_for_closed_prs [OF this] Inr show ?thesis by blast
      next
        assume "GetRef a b ref \<in> set (fst (closed_pages fuel cfg w own repo (page + 1)))"
        from Suc.IH [OF this] show ?thesis .
      qed
    qed
  qed
qed

lemma GetRef_notifyUndeletedBranches:
  "GetRef a b ref \<in> set (fst (notifyUndeletedBranches fuel cfg w own repo)) \<Longrightarrow>
   \<exists>page prs p. pulls_list w own repo Closed page = Inr prs \<and> p \<in> set prs \<and>
      since cfg w \<le> updated_at p \<and> merged_at p \<noteq> None \<and> ref = (js ''heads/'') @ head_ref p"
  using GetRef_closed_pages [of a b ref fuel cfg w own repo 1]
  by (simp add: notifyUndeletedBranches_def fst_seq log_def)

lemma closed_pages_first:
  "\<exists>rest. fst (closed_pages (Suc fuel) cfg w own repo page) = PullsList own repo Closed page # rest"
  by (cases "pulls_list w own repo Closed page") (simp_all add: fst_seq fst_call snd_call call_def)

text \<open>
  Claim C2. In the scan of the closed pull requests: a pull request updated before
  \<open>since\<close> produces no event at all, and every branch lookup of the scan is for a merged
  pull request of some page that was updated at \<open>since\<close> or later. A page none of whose
  pull requests is within the window ends the loop, with no further request, whatever
  fuel is left; a page with a pull request within the window is followed by the request
  for the next page.
\<close>

theorem old_pulls_not_checked:
  "(updated_at pr < since cfg w \<longrightarrow> check_branch cfg w own repo pr any = ([], Ok any))
   \<and> (GetRef own repo ref \<in> set (fst (notifyUndeletedBranches fuel cfg w own repo)) \<longrightarrow>
        (\<exists>page prs p. pulls_list w own repo Closed page = Inr prs \<and> p \<in> set prs \<and>
           since cfg w \<le> updated_at p \<and> merged_at p \<noteq> None \<and> ref = (js ''heads/'') @ head_ref p))
   \<and> (pulls_list w own repo Closed page1 = Inr prs1 \<and> (\<forall>p\<in>set prs1. updated_at p < since cfg w) \<longrightarrow>
        closed_pages (Suc fuel1) cfg w own repo page1 = ([PullsList own repo Closed page1], Ok ()))
   \<and> (pulls_list w own repo Closed page2 = Inr prs2 \<and> (\<exists>p\<in>set prs2. since cfg w \<le> updated_at p) \<longrightarrow>
        (\<exists>rest. fst (closed_pages (Suc (Suc fuel2)) cfg w own repo page2) =
           PullsList own repo Closed page2 # fst (for_closed_prs cfg w own repo prs2 False)
             @ PullsList own repo Closed (page2 + 1) # rest))"
proof (intro conjI impI)
  assume "updated_at pr < since cfg w"
  then show "check_branch cfg w own repo pr any = ([], Ok any)" by (rule check_branch_old)
next
  assume "GetRef own repo ref \<in> set (fst (notifyUndeletedBranches fuel cfg w own repo))"
  then show "\<exists>page prs p. pulls_list w own repo Closed page = Inr prs \<and> p \<in> set prs \<and>
           since cfg w \<le> updated_at p \<and> merged_at p \<noteq> None \<and> ref = (js ''heads/'') @ head_ref p"
    by (rule GetRef_notifyUndeletedBranches)
next
  assume "pulls_list w own repo Closed page1 = Inr prs1 \<and> (\<forall>p\<in>set prs1. updated_at p < since cfg w)"
  then show "closed_pages (Suc fuel1) cfg w own repo page1 = ([PullsList own repo Closed page1], Ok ())"
    using closed_pages_stop by blast
next
  assume a: "pulls_list w own repo Closed page2 = Inr prs2 \<and> (\<exists>p\<in>set prs2. since cfg w \<le> updated_at p)"
  obtain rest where "fst (closed_pages (Suc fuel2) cfg w own repo (page2 + 1)) =
      PullsList own repo Closed (page2 + 1) # rest"
    using closed_pages_first by blast
  with a closed_pages_continue [of w own repo page2 prs2 cfg "Suc fuel2"]
  show "\<exists>rest. fst (closed_pages (Suc (Suc fuel2)) cfg w own repo page2) =
           PullsList own repo Closed page2 # fst (for_closed_prs cfg w own repo prs2 False)
             @ PullsList own repo Closed (page2 + 1) # rest"
    by simp
qed

lemmas branch_defs = notifyUndeletedBranches_def seq_def call_def log_def check_branch_def
  try_branch_def catch_branch_def since_def branch_body_def dry_run_line_def
  branch_reminder_def cfg_acme_def quiet_def pr42_def pr9_def world_closed_def js_def

theorem old_pulls_not_checked_witness:
  "updated_at pr9 < since cfg_acme world_closed
   \<and> check_branch cfg_acme world_closed (js ''acme'') (js ''web'') pr9 False = ([], Ok False)
   \<and> GetRef (js ''acme'') (js ''web'') (js ''heads/feature-x'')
        \<in> set (fst (notifyUndeletedBranches (Suc (Suc 0)) cfg_acme world_closed (js ''acme'') (js ''web'')))
   \<and> (\<exists>page prs p. pulls_list world_closed (js ''acme'') (js ''web'') Closed page = Inr prs \<and> p \<in> set prs \<and>
         since cfg_acme world_closed \<le> updated_at p \<and> merged_at p \<noteq> None
         \<and> (js ''heads/feature-x'') = (js ''heads/'') @ head_ref p)
   \<and> pulls_list world_closed (js ''acme'') (js ''web'') Closed 2 = Inr [pr9]
   \<and> closed_pages (Suc 7) cfg_acme world_closed (js ''acme'') (js ''web'') 2
        = ([PullsList (js ''acme'') (js ''web'') Closed 2], Ok ())
   \<and> pulls_list world_closed (js ''acme'') (js ''web'') Closed 1 = Inr [pr42, pr9]
   \<and> (\<exists>p\<in>set [pr42, pr9]. since cfg_acme world_closed \<le> updated_at p)
   \<and> (\<exists>rest. fst (closed_pages (Suc (Suc 0)) cfg_acme world_closed (js ''acme'') (js ''web'') 1) =
         PullsList (js ''acme'') (js ''web'') Closed 1
           # fst (for_closed_prs cfg_acme world_closed (js ''acme'') (js ''web'') [pr42, pr9] False)
           @ PullsList (js ''acme'') (js ''web'') Closed (1 + 1) # rest)"
proof -
  have a1: "updated_at pr9 < since cfg_acme world_closed"
    by (simp add: branch_defs)
  have a2: "GetRef (js ''acme'') (js ''web'') (js ''heads/feature-x'')
        \<in> set (fst (notifyUndeletedBranches (Suc (Suc 0)) cfg_acme world_closed (js ''acme'') (js ''web'')))"
    by (simp add: branch_defs)
  have a3: "pulls_list world_closed (js ''acme'') (js ''web'') Closed 2 = Inr [pr9]
      \<and> (\<forall>p\<in>set [pr9]. updated_at p < since cfg_acme world_closed)"
    by (simp add: branch_defs)
  have a4: "pulls_list world_closed (js ''acme'') (js ''web'') Closed 1 = Inr [pr42, pr9]
      \<and> (\<exists>p\<in>set [pr42, pr9]. since cfg_acme world_closed \<le> updated_at p)"
    by (simp add: branch_defs)
  note t = old_pulls_not_checked [of pr9 cfg_acme world_closed "js ''acme''" "js ''web''" False
      "js ''heads/feature-x''" "Suc (Suc 0)" 2 "[pr9]" 7 1 "[pr42, pr9]" 0]
  from t a1 have c1: "check_branch cfg_acme world_closed (js ''acme'') (js ''web'') pr9 False = ([], Ok False)"
    by blast
  from t a2 have c2: "\<exists>page prs p. pulls_list world_closed (js ''acme'') (js ''web'') Closed page = Inr prs \<and> p \<in> set prs \<and>
         since cfg_acme world_closed \<le> updated_at p \<and> merged_at p \<noteq> None
         \<and> (js ''heads/feature-x'') = (js ''heads/'') @ head_ref p"
    by blast
  from t a3 have c3: "closed_pages (Suc 7) cfg_acme world_closed (js ''acme'') (js ''web'') 2
        = ([PullsList (js ''acme'') (js ''web'') Closed 2], Ok ())"
    by blast
  from t a4 have c4: "\<exists>rest. fst (closed_pages (Suc (Suc 0)) cfg_acme world_closed (js ''acme'') (js ''web'') 1) =
         PullsList (js ''acme'') (js ''web'') Closed 1
           # fst (for_closed_prs cfg_acme world_closed (js ''acme'') (js ''web'') [pr42, pr9] False)
           @ PullsList (js ''acme'') (js ''web'') Closed (1 + 1) # rest"
    by blast
  from a3 have a3': "pulls_list world_closed (js ''acme'') (js ''web'') Closed 2 = Inr [pr9]" by simp
  from a1 a2 a3' a4 c1 c2 c3 c4 show ?thesis by blast
qed

lemma check_branch_exists:
  assumes "since cfg w \<le> updated_at pr" and "merged_at pr \<noteq> None"
    and "git_getRef w own repo ((js ''heads/'') @ head_ref pr) = Inr ()"
  shows "filter is_reminder (fst (check_branch cfg w own repo pr any)) = [branch_reminder cfg own repo pr]"
proof (cases "DRY_RUN cfg")
  case True
  with assms show ?thesis
    by (simp add: check_branch_merged try_branch_dry catch_branch_Ok branch_reminder_def dry_run_line_def)
next
  case False
  show ?thesis
  proof (cases "issues_createComment w own repo (number pr) (branch_body pr)")
    case (Inl e)
    with assms False show ?thesis
      by (simp add: check_branch_merged try_branch_live_Inl catch_branch_Throw branch_reminder_def)
  next
    case (Inr u)
    with assms False show ?thesis
      by (simp add: check_branch_merged try_branch_live_Inr catch_branch_Ok branch_reminder_def)
  qed
qed

lemma check_branch_404:
  assumes "since cfg w \<le> updated_at pr" and "merged_at pr \<noteq> None"
    and "git_getRef w own repo ((js ''heads/'') @ head_ref pr) = Inl e" and "status e = Some 404"
  shows "check_branch cfg w own repo pr any = ([GetRef own repo ((js ''heads/'') @ head_ref pr)], Ok True)"
  using assms by (simp add: check_branch_merged try_branch_Inl catch_branch_Throw)

lemma check_branch_failed:
  assumes "since cfg w \<le> updated_at pr" and "merged_at pr \<noteq> None"
    and "git_getRef w own repo ((js ''heads/'') @ head_ref pr) = Inl e" and "status e \<noteq> Some 404"
  shows "check_branch cfg w own repo pr any =
     ([GetRef own repo ((js ''heads/'') @ head_ref pr),
       Logged [[Str (js ''Error checking ref'')], [Str (head_ref pr)], status_or_message e]], Ok True)"
  using assms by (simp add: check_branch_merged try_branch_Inl catch_branch_Throw)

lemma check_branch_comment_fails:
  assumes "\<not> DRY_RUN cfg" and "since cfg w \<le> updated_at pr" and "merged_at pr \<noteq> None"
    and "git_getRef w own repo ((js ''heads/'') @ head_ref pr) = Inr ()"
    and "issues_createComment w own repo (number pr) (branch_body pr) = Inl e"
  shows "check_branch cfg w own repo pr any =
     ([GetRef own repo ((js ''heads/'') @ head_ref pr), CreateComment own repo (number pr) (branch_body pr)]
        @ (if status e = Some 404 then []
           else [Logged [[Str (js ''Error checking ref'')], [Str (head_ref pr)], status_or_message e]]),
      Ok True)"
  using assms by (simp add: check_branch_merged try_branch_live_Inl catch_branch_Throw)

lemma reminders_check_branch:
  "filter is_reminder (fst (check_branch cfg w own repo p any)) =
     (if undeleted cfg w own repo p then [branch_reminder cfg own repo p] else [])"
proof (cases "updated_at p < since cfg w")
  case True
  then show ?thesis by (simp add: check_branch_old undeleted_def)
next
  case False
  then have inw: "since cfg w \<le> updated_at p" by simp
  show ?thesis
  proof (cases "merged_at p = None")
    case True
    with inw show ?thesis by (simp add: check_branch_unmerged undeleted_def)
  next
    case merged: False
    show ?thesis
    proof (cases "git_getRef w own repo ((js ''heads/'') @ head_ref p)")
      case (Inr u)
      with inw merged show ?thesis by (simp add: check_branch_exists undeleted_def)
    next
      case (Inl e)
      show ?thesis
      proof (cases "status e = Some 404")
        case True
        with inw merged Inl show ?thesis by (simp add: check_branch_404 undeleted_def)
      next
        case False
        with inw merged Inl show ?thesis by (simp add: check_branch_failed undeleted_def)
      qed
    qed
  qed
qed

lemma reminders_for_closed_prs:
  "filter is_reminder (fst (for_closed_prs cfg w own repo prs any)) =
     map (branch_reminder cfg own repo) (filter (undeleted cfg w own repo) prs)"
proof (induction prs arbitrary: any)
  case Nil
  show ?case by simp
next
  case (Cons p prs)
  show ?case unfolding for_closed_prs_Cons by (simp add: reminders_check_branch Cons.IH)
qed

lemma reminders_closed_pages:
  "filter is_reminder (fst (closed_pages fuel cfg w own repo page)) =
     map (branch_reminder cfg own repo)
       (filter (undeleted cfg w own repo) (closed_prs fuel cfg w own repo page))"
proof (induction fuel arbitrary: page)
  case 0
  show ?case by simp
next
  case (Suc fuel)
  show ?case
  proof (cases "pulls_list w own repo Closed page")
    case (Inl e)
    then show ?thesis unfolding closed_pages_Inl [OF Inl] by simp
  next
    case (Inr prs)
    show ?thesis
    proof (cases "\<forall>p\<in>set prs. updated_at p < since cfg w")
      case True
      then have "\<not> (\<exists>p\<in>set prs. since cfg w \<le> updated_at p)" by auto
      moreover from True have "filter (undeleted cfg w own repo) prs = []"
        by (auto simp: filter_empty_conv undeleted_def)
      ultimately show ?thesis unfolding closed_pages_stop [OF Inr True] using Inr by simp
    next
      case False
      then have inw: "\<exists>p\<in>set prs. since cfg w \<le> updated_at p" by (meson linorder_not_less)
      then show ?thesis unfolding closed_pages_continue [OF Inr inw] using Inr
        by (simp add: reminders_for_closed_prs Suc.IH)
    qed
  qed
qed

lemma reminders_notifyUndeletedBranches:
  "filter is_reminder (fst (notifyUndeletedBranches fuel cfg w own repo)) =
     map (branch_reminder cfg own repo)
       (filter (undeleted cfg w own repo) (closed_prs fuel cfg w own repo 1))"
  by (simp add: notifyUndeletedBranches_def fst_seq log_def reminders_closed_pages)

lemma fst_check_branch:
  "fst (check_branch cfg w own repo p a) = fst (check_branch cfg w own repo p b)"
  by (cases "updated_at p < since cfg w"; cases "merged_at p = None")
     (simp_all add: check_branch_old check_branch_unmerged check_branch_merged)

lemma events_for_closed_prs:
  "p \<in> set prs \<Longrightarrow>
   set (fst (check_branch cfg w own repo p a)) \<subseteq> set (fst (for_closed_prs cfg w own repo prs b))"
proof (induction prs arbitrary: b)
  case Nil
  then show ?case by simp
next
  case (Cons q prs)
  show ?case
  proof (cases "p = q")
    case True
    then show ?thesis unfolding for_closed_prs_Cons
      using fst_check_branch [of cfg w own repo q a b] by simp
  next
    case False
    with Cons.prems have "p \<in> set prs" by simp
    from Cons.IH [OF this] show ?thesis unfolding for_closed_prs_Cons by auto
  qed
qed

lemma events_closed_pages:
  "p \<in> set (closed_prs fuel cfg w own repo page) \<Longrightarrow>
   set (fst (check_branch cfg w own repo p a)) \<subseteq> set (fst (closed_pages fuel cfg w own repo page))"
proof (induction fuel arbitrary: page)
  case 0
  then show ?case by simp
next
  case (Suc fuel)
  show ?case
  proof (cases "pulls_list w own repo Closed page")
    case (Inl e)
    with Suc.prems show ?thesis by simp
  next
    case (Inr prs)
    show ?thesis
    proof (cases "\<forall>p\<in>set prs. updated_at p < since cfg w")
      case True
      then have "\<not> (\<exists>p\<in>set prs. since cfg w \<le> updated_at p)" by auto
      with Suc.prems Inr have "p \<in> set prs" by simp
      with True have "updated_at p < since cfg w" by simp
      then show ?thesis by (simp add: check_branch_old)
    next
      case False
      then have inw: "\<exists>p\<in>set prs. since cfg w \<le> updated_at p" by (meson linorder_not_less)
      with Suc.prems Inr
      have "p \<in> set prs \<or> p \<in> set (closed_prs fuel cfg w own repo (page + 1))" by simp
      then show ?thesis
      proof
        assume "p \<in> set prs"
        from events_for_closed_prs [OF this, of cfg w own repo a False]
        show ?thesis unfolding closed_pages_continue [OF Inr inw] by auto
      next
        assume "p \<in> set (closed_prs fuel cfg w own repo (page + 1))"
        from Suc.IH [OF this]
        show ?thesis unfolding closed_pages_continue [OF Inr inw] by auto
      qed
    qed
  qed
qed

lemma events_notifyUndeletedBranches:
  "p \<in> set (closed_prs fuel cfg w own repo 1) \<Longrightarrow>
   set (fst (check_branch cfg w own repo p a))
     \<subseteq> set (fst (notifyUndeletedBranches fuel cfg w own repo))"
  using events_closed_pages [of p fuel cfg w own repo 1 a]
  by (auto simp: notifyUndeletedBranches_def fst_seq log_def)

lemma status_or_message_404: "status e \<noteq> Some 404 \<Longrightarrow> status_or_message e \<noteq> [Num 404]"
  by (cases e) simp_all

lemma not_found_silent_check_branch:
  "Logged [[Str (js ''Error checking ref'')], b, [Num 404]] \<notin> set (fst (check_branch cfg w own repo p any))"
proof (cases "updated_at p < since cfg w")
  case True
  then show ?thesis by (simp add: check_branch_old)
next
  case False
  then have inw: "since cfg w \<le> updated_at p" by simp
  show ?thesis
  proof (cases "merged_at p = None")
    case True
    with inw show ?thesis by (simp add: check_branch_unmerged)
  next
    case merged: False
    show ?thesis
    proof (cases rule: try_branch_cases [where w=w and own=own and repo=repo and pr=p and cfg=cfg])
      case (ref_fails e)
      with inw merged status_or_message_404 [of e] show ?thesis
        by (cases "status e = Some 404") (simp_all add: check_branch_404 check_branch_failed)
    next
      case dry
      with inw merged show ?thesis
        by (simp add: check_branch_merged try_branch_dry catch_branch_Ok)
    next
      case posted
      with inw merged show ?thesis
        by (simp add: check_branch_merged try_branch_live_Inr catch_branch_Ok)
    next
      case (post_fails e)
      with inw merged status_or_message_404 [of e] show ?thesis
        by (auto simp: check_branch_comment_fails)
    qed
  qed
qed

lemma not_found_silent_for_closed_prs:
  "Logged [[Str (js ''Error checking ref'')], b, [Num 404]]
     \<notin> set (fst (for_closed_prs cfg w own repo prs any))"
proof (induction prs arbitrary: any)
  case Nil
  show ?case by simp
next
  case (Cons p prs)
  show ?case unfolding for_closed_prs_Cons
    by (simp add: not_found_silent_check_branch Cons.IH)
qed

lemma not_found_silent_closed_pages:
  "Logged [[Str (js ''Error checking ref'')], b, [Num 404]]
     \<notin> set (fst (closed_pages fuel cfg w own repo page))"
proof (induction fuel arbitrary: page)
  case 0
  show ?case by simp
next
  case (Suc fuel)
  show ?case
  proof (cases "pulls_list w own repo Closed page")
    case (Inl e)
    show ?thesis unfolding closed_pages_Inl [OF Inl] by simp
  next
    case (Inr prs)
    show ?thesis
    proof (cases "\<forall>p\<in>set prs. updated_at p < since cfg w")
      case True
      show ?thesis unfolding closed_pages_stop [OF Inr True] by simp
    next
      case False
      then have inw: "\<exists>p\<in>set prs. since cfg w \<le> updated_at p" by (meson linorder_not_less)
      show ?thesis unfolding closed_pages_continue [OF Inr inw]
        by (simp add: not_found_silent_for_closed_prs Suc.IH)
    qed
  qed
qed

lemma not_found_silent:
  "Logged [[Str (js ''Error checking ref'')], b, [Num 404]]
     \<notin> set (fst (notifyUndeletedBranches fuel cfg w own repo))"
  by (simp add: notifyUndeletedBranches_def fst_seq log_def not_found_silent_closed_pages)

lemma closed_pages_throws:
  "snd (closed_pages fuel cfg w own repo page) = Throw e \<Longrightarrow>
   \<exists>page'. pulls_list w own repo Closed page' = Inl e"
proof (induction fuel arbitrary: page)
  case 0
  then show ?case by simp
next
  case (Suc fuel)
  show ?case
  proof (cases "pulls_list w own repo Closed page")
    case (Inl e')
    with Suc.prems show ?thesis unfolding closed_pages_Inl [OF Inl] by auto
  next
    case (Inr prs)
    show ?thesis
    proof (cases "\<forall>p\<in>set prs. updated_at p < since cfg w")
      case True
      from Suc.prems show ?thesis unfolding closed_pages_stop [OF Inr True] by simp
    next
      case False
      then have inw: "\<exists>p\<in>set prs. since cfg w \<le> updated_at p" by (meson linorder_not_less)
      from Suc.prems have "snd (closed_pages fuel cfg w own repo (page + 1)) = Throw e"
        unfolding closed_pages_continue [OF Inr inw] by simp
      from Suc.IH [OF this] show ?thesis .
    qed
  qed
qed

lemma notifyUndeletedBranches_throws:
  "snd (notifyUndeletedBranches fuel cfg w own repo) = Throw e \<Longrightarrow>
   \<exists>page. pulls_list w own repo Closed page = Inl e"
  using closed_pages_throws [of fuel cfg w own repo 1 e]
  by (simp add: notifyUndeletedBranches_def snd_seq log_def)

text \<open>
  Claim C3. The reminders among the events of a scan of the closed pull requests are, in
  order, one for each pull request of the pages it goes through that is merged, within
  the window and whose head branch is found, and nothing else: such a pull request is
  reminded of exactly once for each time it is listed, and a pull request whose branch
  lookup fails is not reminded of. The events of the step for a pull request of these
  pages are among the events of the scan. That step, for a merged pull request within
  the window: when the lookup succeeds, it has exactly one reminder; when the lookup
  fails with status 404, the lookup is its only event (nothing is logged); when it fails
  otherwise, the failure is logged; in each case it is done with \<open>Ok\<close>. No line of the
  scan reports a status 404, and the scan throws only an error of a request for a page:
  no lookup ends it.
\<close>

theorem branch_reminder_once:
  "filter is_reminder (fst (notifyUndeletedBranches fuel cfg w own repo)) =
     map (branch_reminder cfg own repo)
       (filter (\<lambda>p. since cfg w \<le> updated_at p \<and> merged_at p \<noteq> None
                    \<and> git_getRef w own repo ((js ''heads/'') @ head_ref p) = Inr ())
          (closed_prs fuel cfg w own repo 1))
   \<and> (p \<in> set (closed_prs fuel cfg w own repo 1) \<longrightarrow>
        set (fst (check_branch cfg w own repo p any))
          \<subseteq> set (fst (notifyUndeletedBranches fuel cfg w own repo)))
   \<and> (since cfg w \<le> updated_at pr1 \<and> merged_at pr1 \<noteq> None
      \<and> git_getRef w own repo ((js ''heads/'') @ head_ref pr1) = Inr () \<longrightarrow>
      filter is_reminder (fst (check_branch cfg w own repo pr1 any1)) = [branch_reminder cfg own repo pr1]
      \<and> snd (check_branch cfg w own repo pr1 any1) = Ok True)
   \<and> (since cfg w \<le> updated_at pr2 \<and> merged_at pr2 \<noteq> None
      \<and> git_getRef w own repo ((js ''heads/'') @ head_ref pr2) = Inl e2 \<and> status e2 = Some 404 \<longrightarrow>
      check_branch cfg w own repo pr2 any2 = ([GetRef own repo ((js ''heads/'') @ head_ref pr2)], Ok True))
   \<and> (since cfg w \<le> updated_at pr3 \<and> merged_at pr3 \<noteq> None
      \<and> git_getRef w own repo ((js ''heads/'') @ head_ref pr3) = Inl e3 \<and> status e3 \<noteq> Some 404 \<longrightarrow>
      check_branch cfg w own repo pr3 any3 =
        ([GetRef own repo ((js ''heads/'') @ head_ref pr3),
          Logged [[Str (js ''Error checking ref'')], [Str (head_ref pr3)], status_or_message e3]], Ok True))
   \<and> Logged [[Str (js ''Error checking ref'')], b, [Num 404]]
        \<notin> set (fst (notifyUndeletedBranches fuel cfg w own repo))
   \<and> (snd (notifyUndeletedBranches fuel cfg w own repo) = Throw e \<longrightarrow>
        (\<exists>page. pulls_list w own repo Closed page = Inl e))"
proof (intro conjI impI)
  have "undeleted cfg w own repo = (\<lambda>p. since cfg w \<le> updated_at p \<and> merged_at p \<noteq> None
                    \<and> git_getRef w own repo ((js ''heads/'') @ head_ref p) = Inr ())"
    by (simp add: undeleted_def fun_eq_iff)
  with reminders_notifyUndeletedBranches [of fuel cfg w own repo]
  show "filter is_reminder (fst (notifyUndeletedBranches fuel cfg w own repo)) =
     map (branch_reminder cfg own repo)
       (filter (\<lambda>p. since cfg w \<le> updated_at p \<and> merged_at p \<noteq> None
                    \<and> git_getRef w own repo ((js ''heads/'') @ head_ref p) = Inr ())
          (closed_prs fuel cfg w own repo 1))"
    by simp
next
  assume "p \<in> set (closed_prs fuel cfg w own repo 1)"
  then show "set (fst (check_branch cfg w own repo p any))
          \<subseteq> set (fst (notifyUndeletedBranches fuel cfg w own repo))"
    by (rule events_notifyUndeletedBranches)
next
  assume a: "since cfg w \<le> updated_at pr1 \<and> merged_at pr1 \<noteq> None
      \<and> git_getRef w own repo ((js ''heads/'') @ head_ref pr1) = Inr ()"
  then show "filter is_reminder (fst (check_branch cfg w own repo pr1 any1)) = [branch_reminder cfg own repo pr1]"
    by (simp add: check_branch_exists)
  from a show "snd (check_branch cfg w own repo pr1 any1) = Ok True"
    by (simp add: snd_check_branch)
next
  assume "since cfg w \<le> updated_at pr2 \<and> merged_at pr2 \<noteq> None
      \<and> git_getRef w own repo ((js ''heads/'') @ head_ref pr2) = Inl e2 \<and> status e2 = Some 404"
  then show "check_branch cfg w own repo pr2 any2 = ([GetRef own repo ((js ''heads/'') @ head_ref pr2)], Ok True)"
    by (simp add: check_branch_404)
next
  assume "since cfg w \<le> updated_at pr3 \<and> merged_at pr3 \<noteq> None
      \<and> git_getRef w own repo ((js ''heads/'') @ head_ref pr3) = Inl e3 \<and> status e3 \<noteq> Some 404"
  then show "check_branch cfg w own repo pr3 any3 =
        ([GetRef own repo ((js ''heads/'') @ head_ref pr3),
          Logged [[Str (js ''Error checking ref'')], [Str (head_ref pr3)], status_or_message e3]], Ok True)"
    by (simp add: check_branch_failed)
next
  show "Logged [[Str (js ''Error checking ref'')], b, [Num 404]]
        \<notin> set (fst (notifyUndeletedBranches fuel cfg w own repo))"
    by (rule not_found_silent)
next
  assume "snd (notifyUndeletedBranches fuel cfg w own repo) = Throw e"
  then show "\<exists>page. pulls_list w own repo Closed page = Inl e"
    by (rule notifyUndeletedBranches_throws)
qed

lemmas ref_defs = check_branch_def try_branch_def catch_branch_def seq_def call_def log_def
  since_def branch_body_def dry_run_line_def branch_reminder_def
  cfg_acme_def quiet_def pr42_def pr43_def pr44_def pr9_def world_closed_def world_refs_def
  world_no_comment_def js_def

theorem branch_reminder_once_witness:
  "closed_prs (Suc (Suc 0)) cfg_acme world_refs (js ''acme'') (js ''web'') 1 = [pr42, pr43, pr44, pr9, pr9]
   \<and> filter is_reminder (fst (notifyUndeletedBranches (Suc (Suc 0)) cfg_acme world_refs (js ''acme'') (js ''web'')))
        = [CreateComment (js ''acme'') (js ''web'') 42 (branch_body pr42)]
   \<and> notifyUndeletedBranches (Suc (Suc 0)) cfg_acme world_refs (js ''acme'') (js ''web'') =
       ([Logged [[Str (js ''[''), Str (js ''acme''), Str (js ''/''), Str (js ''web''),
                  Str (js ''] Checking merged PRs for undeleted branches (lookback ''), Flt 14, Str (js ''d)'')]],
         PullsList (js ''acme'') (js ''web'') Closed 1,
         GetRef (js ''acme'') (js ''web'') (js ''heads/feature-x''),
         CreateComment (js ''acme'') (js ''web'') 42 (branch_body pr42),
         Logged [[Str (js ''Commented branch reminder on PR #''), Num 42]],
         GetRef (js ''acme'') (js ''web'') (js ''heads/gone''),
         GetRef (js ''acme'') (js ''web'') (js ''heads/broken''),
         Logged [[Str (js ''Error checking ref'')], [Str (js ''broken'')], [Num 500]],
         PullsList (js ''acme'') (js ''web'') Closed 2], Ok ())
   \<and> (since cfg_acme world_refs \<le> updated_at pr42 \<and> merged_at pr42 \<noteq> None
      \<and> git_getRef world_refs (js ''acme'') (js ''web'') ((js ''heads/'') @ head_ref pr42) = Inr ())
   \<and> filter is_reminder (fst (check_branch cfg_acme world_refs (js ''acme'') (js ''web'') pr42 False))
        = [branch_reminder cfg_acme (js ''acme'') (js ''web'') pr42]
   \<and> (since cfg_acme world_refs \<le> updated_at pr43 \<and> merged_at pr43 \<noteq> None
      \<and> git_getRef world_refs (js ''acme'') (js ''web'') ((js ''heads/'') @ head_ref pr43)
           = Inl (RequestError 404 (js ''Not Found''))
      \<and> status (RequestError 404 (js ''Not Found'')) = Some 404)
   \<and> check_branch cfg_acme world_refs (js ''acme'') (js ''web'') pr43 False
        = ([GetRef (js ''acme'') (js ''web'') ((js ''heads/'') @ head_ref pr43)], Ok True)
   \<and> (since cfg_acme world_refs \<le> updated_at pr44 \<and> merged_at pr44 \<noteq> None
      \<and> git_getRef world_refs (js ''acme'') (js ''web'') ((js ''heads/'') @ head_ref pr44)
           = Inl (RequestError 500 (js ''Server Error''))
      \<and> status (RequestError 500 (js ''Server Error'')) \<noteq> Some 404)
   \<and> check_branch cfg_acme world_refs (js ''acme'') (js ''web'') pr44 False
        = ([GetRef (js ''acme'') (js ''web'') ((js ''heads/'') @ head_ref pr44),
            Logged [[Str (js ''Error checking ref'')], [Str (head_ref pr44)],
                    status_or_message (RequestError 500 (js ''Server Error''))]], Ok True)
   \<and> pr44 \<in> set (closed_prs (Suc (Suc 0)) cfg_acme world_refs (js ''acme'') (js ''web'') 1)
   \<and> Logged [[Str (js ''Error checking ref'')], [Str (head_ref pr44)],
              status_or_message (RequestError 500 (js ''Server Error''))]
        \<in> set (fst (notifyUndeletedBranches (Suc (Suc 0)) cfg_acme world_refs (js ''acme'') (js ''web'')))"
proof -
  have a0: "closed_prs (Suc (Suc 0)) cfg_acme world_refs (js ''acme'') (js ''web'') 1 = [pr42, pr43, pr44, pr9, pr9]"
    by (simp add: ref_defs)
  have f: "filter (\<lambda>p. since cfg_acme world_refs \<le> updated_at p \<and> merged_at p \<noteq> None
                    \<and> git_getRef world_refs (js ''acme'') (js ''web'') ((js ''heads/'') @ head_ref p) = Inr ())
             [pr42, pr43, pr44, pr9, pr9] = [pr42]"
    by (simp add: ref_defs)
  have r: "branch_reminder cfg_acme (js ''acme'') (js ''web'') pr42 = CreateComment (js ''acme'') (js ''web'') 42 (branch_body pr42)"
    by (simp add: ref_defs)
  have a1: "since cfg_acme world_refs \<le> updated_at pr42 \<and> merged_at pr42 \<noteq> None
      \<and> git_getRef world_refs (js ''acme'') (js ''web'') ((js ''heads/'') @ head_ref pr42) = Inr ()"
    by (simp add: ref_defs)
  have a2: "since cfg_acme world_refs \<le> updated_at pr43 \<and> merged_at pr43 \<noteq> None
      \<and> git_getRef world_refs (js ''acme'') (js ''web'') ((js ''heads/'') @ head_ref pr43)
           = Inl (RequestError 404 (js ''Not Found''))
      \<and> status (RequestError 404 (js ''Not Found'')) = Some 404"
    by (simp add: ref_defs)
  have a3: "since cfg_acme world_refs \<le> updated_at pr44 \<and> merged_at pr44 \<noteq> None
      \<and> git_getRef world_refs (js ''acme'') (js ''web'') ((js ''heads/'') @ head_ref pr44)
           = Inl (RequestError 500 (js ''Server Error''))
      \<and> status (RequestError 500 (js ''Server Error'')) \<noteq> Some 404"
    by (simp add: ref_defs)
  have a4: "pr44 \<in> set (closed_prs (Suc (Suc 0)) cfg_acme world_refs (js ''acme'') (js ''web'') 1)"
    unfolding a0 by simp
  have run: "notifyUndeletedBranches (Suc (Suc 0)) cfg_acme world_refs (js ''acme'') (js ''web'') =
       ([Logged [[Str (js ''[''), Str (js ''acme''), Str (js ''/''), Str (js ''web''),
                  Str (js ''] Checking merged PRs for undeleted branches (lookback ''), Flt 14, Str (js ''d)'')]],
         PullsList (js ''acme'') (js ''web'') Closed 1,
         GetRef (js ''acme'') (js ''web'') (js ''heads/feature-x''),
         CreateComment (js ''acme'') (js ''web'') 42 (branch_body pr42),
         Logged [[Str (js ''Commented branch reminder on PR #''), Num 42]],
         GetRef (js ''acme'') (js ''web'') (js ''heads/gone''),
         GetRef (js ''acme'') (js ''web'') (js ''heads/broken''),
         Logged [[Str (js ''Error checking ref'')], [Str (js ''broken'')], [Num 500]],
         PullsList (js ''acme'') (js ''web'') Closed 2], Ok ())"
    by (simp add: notifyUndeletedBranches_def ref_defs)
  note t = branch_reminder_once [of "Suc (Suc 0)" cfg_acme world_refs "js ''acme''" "js ''web''" pr44 False
      pr42 False pr43 "RequestError 404 (js ''Not Found'')" False pr44 "RequestError 500 (js ''Server Error'')" False
      "[]" "RequestError 404 (js ''Not Found'')"]
  from t have c0: "filter is_reminder (fst (notifyUndeletedBranches (Suc (Suc 0)) cfg_acme world_refs (js ''acme'') (js ''web'')))
        = [CreateComment (js ''acme'') (js ''web'') 42 (branch_body pr42)]"
    unfolding a0 f by (simp add: r)
  from t a1 have c1: "filter is_reminder (fst (check_branch cfg_acme world_refs (js ''acme'') (js ''web'') pr42 False))
        = [branch_reminder cfg_acme (js ''acme'') (js ''web'') pr42]"
    by blast
  from t a2 have c2: "check_branch cfg_acme world_refs (js ''acme'') (js ''web'') pr43 False
        = ([GetRef (js ''acme'') (js ''web'') ((js ''heads/'') @ head_ref pr43)], Ok True)"
    by blast
  from t a3 have c3: "check_branch cfg_acme world_refs (js ''acme'') (js ''web'') pr44 False
        = ([GetRef (js ''acme'') (js ''web'') ((js ''heads/'') @ head_ref pr44),
            Logged [[Str (js ''Error checking ref'')], [Str (head_ref pr44)],
                    status_or_message (RequestError 500 (js ''Server Error''))]], Ok True)"
    by blast
  from t a4 have "set (fst (check_branch cfg_acme world_refs (js ''acme'') (js ''web'') pr44 False))
          \<subseteq> set (fst (notifyUndeletedBranches (Suc (Suc 0)) cfg_acme world_refs (js ''acme'') (js ''web'')))"
    by blast
  then have c4: "Logged [[Str (js ''Error checking ref'')], [Str (head_ref pr44)],
              status_or_message (RequestError 500 (js ''Server Error''))]
        \<in> set (fst (notifyUndeletedBranches (Suc (Suc 0)) cfg_acme world_refs (js ''acme'') (js ''web'')))"
    unfolding c3 by simp
  from a0 a1 a2 a3 a4 run c0 c1 c2 c3 c4 show ?thesis by blast
qed

text \<open>
  Claim C10. Live mode, a merged pull request within the window whose branch exists: when
  the post of the comment fails, the \<open>catch\<close> written for the lookup handles it. With
  status 404 nothing is logged; otherwise the line \<open>Error checking ref\<close> is logged with
  the branch and the status (or message). The loop goes on with the rest of the page.
\<close>

theorem comment_failure_caught:
  "\<not> DRY_RUN cfg \<and> since cfg w \<le> updated_at pr \<and> merged_at pr \<noteq> None
     \<and> git_getRef w own repo ((js ''heads/'') @ head_ref pr) = Inr ()
     \<and> issues_createComment w own repo (number pr) (branch_body pr) = Inl e \<longrightarrow>
   check_branch cfg w own repo pr any =
     ([GetRef own repo ((js ''heads/'') @ head_ref pr), CreateComment own repo (number pr) (branch_body pr)]
        @ (if status e = Some 404 then []
           else [Logged [[Str (js ''Error checking ref'')], [Str (head_ref pr)], status_or_message e]]),
      Ok True)
   \<and> for_closed_prs cfg w own repo (pr # rest) any =
       (fst (check_branch cfg w own repo pr any) @ fst (for_closed_prs cfg w own repo rest True),
        snd (for_closed_prs cfg w own repo rest True))"
proof (intro impI conjI)
  assume a: "\<not> DRY_RUN cfg \<and> since cfg w \<le> updated_at pr \<and> merged_at pr \<noteq> None
     \<and> git_getRef w own repo ((js ''heads/'') @ head_ref pr) = Inr ()
     \<and> issues_createComment w own repo (number pr) (branch_body pr) = Inl e"
  then show "check_branch cfg w own repo pr any =
     ([GetRef own repo ((js ''heads/'') @ head_ref pr), CreateComment own repo (number pr) (branch_body pr)]
        @ (if status e = Some 404 then []
           else [Logged [[Str (js ''Error checking ref'')], [Str (head_ref pr)], status_or_message e]]),
      Ok True)"
    using check_branch_comment_fails by blast
  from a show "for_closed_prs cfg w own repo (pr # rest) any =
       (fst (check_branch cfg w own repo pr any) @ fst (for_closed_prs cfg w own repo rest True),
        snd (for_closed_prs cfg w own repo rest True))"
    using for_closed_prs_Cons [of cfg w own repo pr rest any] by simp
qed

theorem comment_failure_caught_witness:
  "(\<not> DRY_RUN cfg_acme \<and> since cfg_acme (world_no_comment 404) \<le> updated_at pr42
     \<and> merged_at pr42 \<noteq> None
     \<and> git_getRef (world_no_comment 404) (js ''acme'') (js ''web'') ((js ''heads/'') @ head_ref pr42) = Inr ()
     \<and> issues_createComment (world_no_comment 404) (js ''acme'') (js ''web'') (number pr42) (branch_body pr42)
         = Inl (RequestError 404 (js ''failed'')))
   \<and> check_branch cfg_acme (world_no_comment 404) (js ''acme'') (js ''web'') pr42 False =
     ([GetRef (js ''acme'') (js ''web'') (js ''heads/feature-x''),
       CreateComment (js ''acme'') (js ''web'') 42 (branch_body pr42)], Ok True)
   \<and> check_branch cfg_acme (world_no_comment 403) (js ''acme'') (js ''web'') pr42 False =
     ([GetRef (js ''acme'') (js ''web'') (js ''heads/feature-x''),
       CreateComment (js ''acme'') (js ''web'') 42 (branch_body pr42),
       Logged [[Str (js ''Error checking ref'')], [Str (js ''feature-x'')], [Num 403]]], Ok True)"
proof -
  have a: "\<not> DRY_RUN cfg_acme \<and> since cfg_acme (world_no_comment code) \<le> updated_at pr42
     \<and> merged_at pr42 \<noteq> None
     \<and> git_getRef (world_no_comment code) (js ''acme'') (js ''web'') ((js ''heads/'') @ head_ref pr42) = Inr ()
     \<and> issues_createComment (world_no_comment code) (js ''acme'') (js ''web'') (number pr42) (branch_body pr42)
         = Inl (RequestError code (js ''failed''))" for code
    by (simp add: ref_defs)
  have n: "number pr42 = 42" "head_ref pr42 = js ''feature-x''"
    by (simp_all add: pr42_def)
  note t1 = comment_failure_caught [of cfg_acme "world_no_comment 404" pr42 "js ''acme''" "js ''web''"
      "RequestError 404 (js ''failed'')" False "[]", THEN mp, OF a, THEN conjunct1]
  note t2 = comment_failure_caught [of cfg_acme "world_no_comment 403" pr42 "js ''acme''" "js ''web''"
      "RequestError 403 (js ''failed'')" False "[]", THEN mp, OF a, THEN conjunct1]
  from t1 have c1: "check_branch cfg_acme (world_no_comment 404) (js ''acme'') (js ''web'') pr42 False =
     ([GetRef (js ''acme'') (js ''web'') (js ''heads/feature-x''),
       CreateComment (js ''acme'') (js ''web'') 42 (branch_body pr42)], Ok True)"
    by (simp add: n)
  from t2 have c2: "check_branch cfg_acme (world_no_comment 403) (js ''acme'') (js ''web'') pr42 False =
     ([GetRef (js ''acme'') (js ''web'') (js ''heads/feature-x''),
       CreateComment (js ''acme'') (js ''web'') 42 (branch_body pr42),
       Logged [[Str (js ''Error checking ref'')], [Str (js ''feature-x'')], [Num 403]]], Ok True)"
    by (simp add: n)
  from a [of 404] c1 c2 show ?thesis by blast
qed

subsection \<open>Dry run\<close>





























subsection \<open>A failed post\<close>

lemma ends_in_seq:
  assumes "ev \<in> set (fst (seq m k))"
    and "ev \<in> set (fst m) \<Longrightarrow> ends_in ev e m"
    and "\<And>v. snd m = Ok v \<Longrightarrow> ev \<in> set (fst (k v)) \<Longrightarrow> ends_in ev e (k v)"
  shows "ends_in ev e (seq m k)"
proof (cases "snd m")
  case (Ok v)
  then have unf: "fst (seq m k) = fst m @ fst (k v)" "snd (seq m k) = snd (k v)"
    by (simp_all add: fst_seq snd_seq)
  from Ok assms(2) have "ev \<notin> set (fst m)" by (auto simp: ends_in_def)
  with assms(1) unf have "ev \<in> set (fst (k v))" by simp
  with assms(3) Ok have "ends_in ev e (k v)" by simp
  then show ?thesis by (simp add: ends_in_def unf)
next
  case (Throw e')
  then have unf: "fst (seq m k) = fst m" "snd (seq m k) = Throw e'"
    by (simp_all add: fst_seq snd_seq)
  with assms(1,2) Throw show ?thesis by (simp add: ends_in_def)
next
  case OutOfFuel
  then have unf: "fst (seq m k) = fst m" "snd (seq m k) = OutOfFuel"
    by (simp_all add: fst_seq snd_seq)
  with assms(1,2) OutOfFuel show ?thesis by (simp add: ends_in_def)
qed

lemma failed_post_remind_reviewer:
  assumes "CreateComment a b n body \<in> set (fst (remind_reviewer cfg w own repo pr reviews R))"
    and "issues_createComment w a b n body = Inl e"
  shows "ends_in (CreateComment a b n body) e (remind_reviewer cfg w own repo pr reviews R)"
  using assms
  by (auto simp: remind_reviewer_def Let_def log_def call_def seq_def ends_in_def
      split: if_splits sum.splits)

lemma failed_post_for_reviewers:
  assumes "issues_createComment w a b n body = Inl e"
  shows "CreateComment a b n body \<in> set (fst (for_reviewers cfg w own repo pr reviews rs)) \<Longrightarrow>
         ends_in (CreateComment a b n body) e (for_reviewers cfg w own repo pr reviews rs)"
proof (induction rs)
  case Nil
  then show ?case by simp
next
  case (Cons r rs)
  from Cons.prems show ?case
    unfolding for_reviewers.simps
    by (rule ends_in_seq) (simp_all add: failed_post_remind_reviewer assms Cons.IH)
qed

lemma failed_post_check_reviewers:
  assumes "issues_createComment w a b n body = Inl e"
    and "CreateComment a b n body \<in> set (fst (check_reviewers cfg w own repo pr))"
  shows "ends_in (CreateComment a b n body) e (check_reviewers cfg w own repo pr)"
proof (cases "requested_reviewers pr = []")
  case True
  with assms(2) show ?thesis by (simp add: check_reviewers_none)
next
  case False
  from assms(2) have "CreateComment a b n body \<in> set (fst
      (seq (call (ListReviews own repo (number pr)) (pulls_listReviews w own repo (number pr)))
          (\<lambda>reviews. for_reviewers cfg w own repo pr reviews (requested_reviewers pr))))"
    using False by (simp add: check_reviewers_def)
  then have "ends_in (CreateComment a b n body) e
      (seq (call (ListReviews own repo (number pr)) (pulls_listReviews w own repo (number pr)))
          (\<lambda>reviews. for_reviewers cfg w own repo pr reviews (requested_reviewers pr)))"
    by (rule ends_in_seq) (simp_all add: fst_call failed_post_for_reviewers [OF assms(1)])
  with False show ?thesis by (simp add: check_reviewers_def)
qed

lemma failed_post_for_open_prs:
  assumes "issues_createComment w a b n body = Inl e"
  shows "CreateComment a b n body \<in> set (fst (for_open_prs cfg w own repo prs)) \<Longrightarrow>
         ends_in (CreateComment a b n body) e (for_open_prs cfg w own repo prs)"
proof (induction prs)
  case Nil
  then show ?case by simp
next
  case (Cons p prs)
  from Cons.prems show ?case
    unfolding for_open_prs.simps
    by (rule ends_in_seq) (simp_all add: failed_post_check_reviewers [OF assms] Cons.IH)
qed

lemma failed_post_open_pages:
  assumes "issues_createComment w a b n body = Inl e"
  shows "CreateComment a b n body \<in> set (fst (open_pages fuel cfg w own repo page)) \<Longrightarrow>
         ends_in (CreateComment a b n body) e (open_pages fuel cfg w own repo page)"
proof (induction fuel arbitrary: page)
  case 0
  then show ?case by simp
next
  case (Suc fuel)
  from Suc.prems show ?case
    unfolding open_pages.simps
  proof (rule ends_in_seq)
    assume "CreateComment a b n body \<in> set (fst (call (PullsList own repo Open page)
        (pulls_list w own repo Open page)))"
    then show "ends_in (CreateComment a b n body) e (call (PullsList own repo Open page)
        (pulls_list w own repo Open page))"
      by (simp add: fst_call)
  next
    fix prs
    assume mem: "CreateComment a b n body \<in> set (fst (if prs = [] then ([], Ok ())
        else seq (for_open_prs cfg w own repo prs) (\<lambda>_. open_pages fuel cfg w own repo (page + 1))))"
    then have ne: "prs \<noteq> []" by (auto split: if_splits)
    with mem have "CreateComment a b n body \<in> set (fst
        (seq (for_open_prs cfg w own repo prs) (\<lambda>_. open_pages fuel cfg w own repo (page + 1))))"
      by simp
    then have "ends_in (CreateComment a b n body) e
        (seq (for_open_prs cfg w own repo prs) (\<lambda>_. open_pages fuel cfg w own repo (page + 1)))"
      by (rule ends_in_seq) (simp_all add: failed_post_for_open_prs [OF assms] Suc.IH)
    with ne show "ends_in (CreateComment a b n body) e (if prs = [] then ([], Ok ())
        else seq (for_open_prs cfg w own repo prs) (\<lambda>_. open_pages fuel cfg w own repo (page + 1)))"
      by simp
  qed
qed

lemma failed_post_notifyInactiveReviewers:
  assumes "issues_createComment w a b n body = Inl e"
    and "CreateComment a b n body \<in> set (fst (notifyInactiveReviewers fuel cfg w own repo))"
  shows "ends_in (CreateComment a b n body) e (notifyInactiveReviewers fuel cfg w own repo)"
  using assms(2) unfolding notifyInactiveReviewers_def
  by (rule ends_in_seq) (simp_all add: log_def failed_post_open_pages [OF assms(1)])

lemma catch_repo_Throw:
  "snd m = Throw e \<Longrightarrow> catch_repo r m = (fst m @ [repo_error_line r e], Ok ())"
  by (cases m) (simp add: catch_repo_def)

lemma catch_repo_Ok: "snd m = Ok v \<Longrightarrow> catch_repo r m = m"
  by (cases m) (simp add: catch_repo_def)

lemma scan_repo_reviewers_throw:
  "snd (notifyInactiveReviewers fuel cfg w (owner r) (name r)) = Throw e \<Longrightarrow>
   scan_repo fuel cfg w r = notifyInactiveReviewers fuel cfg w (owner r) (name r)"
  by (cases "notifyInactiveReviewers fuel cfg w (owner r) (name r)") (simp add: scan_repo_def seq_def)

lemma for_repos_Cons:
  "snd (catch_repo r (scan_repo fuel cfg w r)) = Ok () \<Longrightarrow>
   for_repos fuel cfg w (r # rest) =
     (fst (catch_repo r (scan_repo fuel cfg w r)) @ fst (for_repos fuel cfg w rest),
      snd (for_repos fuel cfg w rest))"
  by (cases "catch_repo r (scan_repo fuel cfg w r)") (simp add: seq_def split: prod.splits)

lemma for_repos_reviewers_throw:
  assumes "snd (notifyInactiveReviewers fuel cfg w (owner r) (name r)) = Throw e"
  shows "for_repos fuel cfg w (r # others) =
     (fst (notifyInactiveReviewers fuel cfg w (owner r) (name r)) @ repo_error_line r e
        # fst (for_repos fuel cfg w others),
      snd (for_repos fuel cfg w others))"
proof -
  from assms have "catch_repo r (scan_repo fuel cfg w r) =
      (fst (notifyInactiveReviewers fuel cfg w (owner r) (name r)) @ [repo_error_line r e], Ok ())"
    by (simp add: scan_repo_reviewers_throw catch_repo_Throw)
  then show ?thesis by (simp add: for_repos_Cons del: for_repos.simps)
qed

text \<open>
  Claim C4, as amended. In live mode a failed post is not absorbed at the post. In the
  scan of the open pull requests, a post that fails ends the scan at once with that
  error: the failed call is the last event, so no later reviewer or pull request is
  looked at and the scan logs nothing about it. The \<open>catch\<close> of \<open>main\<close> then logs
  \<open>Error processing repo owner/name:\<close> with the status (or message) and the loop over
  the repositories goes on with the next one. In the scan of the closed pull requests a
  failed post is caught in the loop: the pull request is done with \<open>Ok\<close>, and the
  failure is logged with the status (or message) unless the status is 404.
\<close>

theorem failed_post_handling:
  "(CreateComment a b n body \<in> set (fst (notifyInactiveReviewers fuel cfg w own repo))
      \<and> issues_createComment w a b n body = Inl e \<longrightarrow>
      snd (notifyInactiveReviewers fuel cfg w own repo) = Throw e
      \<and> last (fst (notifyInactiveReviewers fuel cfg w own repo)) = CreateComment a b n body)
   \<and> (snd (notifyInactiveReviewers fuel cfg w (owner r) (name r)) = Throw e' \<longrightarrow>
      for_repos fuel cfg w (r # others) =
        (fst (notifyInactiveReviewers fuel cfg w (owner r) (name r)) @ repo_error_line r e'
           # fst (for_repos fuel cfg w others),
         snd (for_repos fuel cfg w others)))
   \<and> (\<not> DRY_RUN cfg \<and> since cfg w \<le> updated_at pr \<and> merged_at pr \<noteq> None
      \<and> git_getRef w own repo ((js ''heads/'') @ head_ref pr) = Inr ()
      \<and> issues_createComment w own repo (number pr) (branch_body pr) = Inl e'' \<longrightarrow>
      check_branch cfg w own repo pr any =
        ([GetRef own repo ((js ''heads/'') @ head_ref pr),
          CreateComment own repo (number pr) (branch_body pr)]
           @ (if status e'' = Some 404 then []
              else [Logged [[Str (js ''Error checking ref'')], [Str (head_ref pr)],
                            status_or_message e'']]),
         Ok True))"
  using failed_post_notifyInactiveReviewers [of w a b n body e fuel cfg own repo]
    for_repos_reviewers_throw [of fuel cfg w r e' others]
    check_branch_comment_fails [of cfg w pr own repo e'' any]
  unfolding ends_in_def by blast

text \<open>
  Claim C4 as stated fails. Live mode, the posts fail with status 403, \<open>bob\<close> is due a
  reminder on pull request 7 and \<open>erin\<close> on pull request 8 of the same page: the scan
  ends with the error thrown right after the first post. Nothing is logged about the
  failure and the loop does not go on to \<open>erin\<close>.
\<close>

theorem failed_post_propagates_counterexample:
  "\<not> DRY_RUN cfg_acme
   \<and> pr8 \<in> set (open_prs (Suc (Suc 0)) world_forbidden (js ''acme'') (js ''web'') 1)
   \<and> (js ''erin'') \<in> set (requested_reviewers pr8)
   \<and> stale cfg_acme world_forbidden (reviews_of world_forbidden (js ''acme'') (js ''web'') pr8) pr8 (js ''erin'')
   \<and> notifyInactiveReviewers (Suc (Suc 0)) cfg_acme world_forbidden (js ''acme'') (js ''web'') =
       ([Logged [[Str (js ''[''), Str (js ''acme''), Str (js ''/''), Str (js ''web''),
                  Str (js ''] Checking open PRs for inactive reviewers (> ''), Flt 12, Str (js ''h)'')]],
         PullsList (js ''acme'') (js ''web'') Open 1,
         ListReviews (js ''acme'') (js ''web'') 7,
         CreateComment (js ''acme'') (js ''web'') 7 (reviewer_body cfg_acme world_forbidden pr7 (js ''bob''))],
        Throw (RequestError 403 (js ''Forbidden'')))"
  by (simp add: forbidden_defs hours_13)

theorem failed_post_handling_witness:
  "(CreateComment (js ''acme'') (js ''web'') 7 (reviewer_body cfg_acme world_forbidden pr7 (js ''bob''))
       \<in> set (fst (notifyInactiveReviewers (Suc (Suc 0)) cfg_acme world_forbidden (js ''acme'') (js ''web'')))
     \<and> issues_createComment world_forbidden (js ''acme'') (js ''web'') 7
         (reviewer_body cfg_acme world_forbidden pr7 (js ''bob'')) = Inl (RequestError 403 (js ''Forbidden'')))
   \<and> snd (notifyInactiveReviewers (Suc (Suc 0)) cfg_acme world_forbidden (js ''acme'') (js ''web''))
       = Throw (RequestError 403 (js ''Forbidden''))
   \<and> for_repos (Suc (Suc 0)) cfg_acme world_forbidden [\<lparr>owner = js ''acme'', name = js ''web''\<rparr>] =
       (fst (notifyInactiveReviewers (Suc (Suc 0)) cfg_acme world_forbidden (js ''acme'') (js ''web''))
          @ [Logged [[Str (js ''Error processing repo ''), Str (js ''acme''), Str (js ''/''), Str (js ''web''), Str (js '':'')],
                     [Num 403]]],
        Ok ())
   \<and> (\<not> DRY_RUN cfg_acme \<and> since cfg_acme world_forbidden \<le> updated_at pr42
       \<and> merged_at pr42 \<noteq> None
       \<and> git_getRef world_forbidden (js ''acme'') (js ''web'') ((js ''heads/'') @ head_ref pr42) = Inr ()
       \<and> issues_createComment world_forbidden (js ''acme'') (js ''web'') (number pr42) (branch_body pr42)
           = Inl (RequestError 403 (js ''Forbidden'')))
   \<and> check_branch cfg_acme world_forbidden (js ''acme'') (js ''web'') pr42 False =
       ([GetRef (js ''acme'') (js ''web'') (js ''heads/feature-x''),
         CreateComment (js ''acme'') (js ''web'') 42 (branch_body pr42),
         Logged [[Str (js ''Error checking ref'')], [Str (js ''feature-x'')], [Num 403]]], Ok True)"
proof -
  have a1: "CreateComment (js ''acme'') (js ''web'') 7 (reviewer_body cfg_acme world_forbidden pr7 (js ''bob''))
       \<in> set (fst (notifyInactiveReviewers (Suc (Suc 0)) cfg_acme world_forbidden (js ''acme'') (js ''web'')))
     \<and> issues_createComment world_forbidden (js ''acme'') (js ''web'') 7
         (reviewer_body cfg_acme world_forbidden pr7 (js ''bob'')) = Inl (RequestError 403 (js ''Forbidden''))"
    by (simp add: forbidden_defs hours_13)
  have a3: "\<not> DRY_RUN cfg_acme \<and> since cfg_acme world_forbidden \<le> updated_at pr42
       \<and> merged_at pr42 \<noteq> None
       \<and> git_getRef world_forbidden (js ''acme'') (js ''web'') ((js ''heads/'') @ head_ref pr42) = Inr ()
       \<and> issues_createComment world_forbidden (js ''acme'') (js ''web'') (number pr42) (branch_body pr42)
           = Inl (RequestError 403 (js ''Forbidden''))"
    by (simp add: since_def cfg_acme_def world_forbidden_def quiet_def pr42_def)
  note t = failed_post_handling [of "js ''acme''" "js ''web''" 7
      "reviewer_body cfg_acme world_forbidden pr7 (js ''bob'')" "Suc (Suc 0)" cfg_acme world_forbidden
      "js ''acme''" "js ''web''" "RequestError 403 (js ''Forbidden'')" "\<lparr>owner = js ''acme'', name = js ''web''\<rparr>"
      "RequestError 403 (js ''Forbidden'')" "[]" pr42 "RequestError 403 (js ''Forbidden'')" False]
  from t a1 have c1: "snd (notifyInactiveReviewers (Suc (Suc 0)) cfg_acme world_forbidden (js ''acme'') (js ''web''))
       = Throw (RequestError 403 (js ''Forbidden''))"
    by blast
  with t have c2: "for_repos (Suc (Suc 0)) cfg_acme world_forbidden [\<lparr>owner = js ''acme'', name = js ''web''\<rparr>] =
       (fst (notifyInactiveReviewers (Suc (Suc 0)) cfg_acme world_forbidden (js ''acme'') (js ''web''))
          @ [Logged [[Str (js ''Error processing repo ''), Str (js ''acme''), Str (js ''/''), Str (js ''web''), Str (js '':'')],
                     [Num 403]]],
        Ok ())"
    by (simp add: repo_error_line_def)
  from t a3 have c3: "check_branch cfg_acme world_forbidden (js ''acme'') (js ''web'') pr42 False =
       ([GetRef (js ''acme'') (js ''web'') (js ''heads/feature-x''),
         CreateComment (js ''acme'') (js ''web'') 42 (branch_body pr42),
         Logged [[Str (js ''Error checking ref'')], [Str (js ''feature-x'')], [Num 403]]], Ok True)"
    by (simp add: pr42_def)
  from a1 a3 c1 c2 c3 show ?thesis by blast
qed

subsection \<open>One repository after the other\<close>

lemma snd_catch_repo: "snd (catch_repo r m) \<noteq> Throw e"
  by (cases m; cases "snd m") (simp_all add: catch_repo_def)

lemma for_repos_never_throws: "snd (for_repos fuel cfg w repos) \<noteq> Throw e"
proof (induction repos)
  case Nil
  show ?case by simp
next
  case (Cons r repos)
  show ?case
    using snd_catch_repo [of r "scan_repo fuel cfg w r"] Cons.IH
    by (simp add: snd_seq split: outcome.splits)
qed

lemma catch_repo_returns:
  "snd (scan_repo fuel cfg w r) \<noteq> OutOfFuel \<Longrightarrow> snd (catch_repo r (scan_repo fuel cfg w r)) = Ok ()"
  by (cases "snd (scan_repo fuel cfg w r)")
     (simp_all add: catch_repo_Throw catch_repo_Ok)

lemma for_repos_all:
  "\<forall>r\<in>set repos. snd (scan_repo fuel cfg w r) \<noteq> OutOfFuel \<Longrightarrow>
   snd (for_repos fuel cfg w repos) = Ok ()
   \<and> fst (for_repos fuel cfg w repos) =
       concat (map (\<lambda>r. fst (catch_repo r (scan_repo fuel cfg w r))) repos)"
proof (induction repos)
  case Nil
  show ?case by simp
next
  case (Cons r repos)
  from Cons.prems have "snd (catch_repo r (scan_repo fuel cfg w r)) = Ok ()"
    by (simp add: catch_repo_returns)
  note unf = for_repos_Cons [OF this]
  from Cons show ?case unfolding unf by simp
qed

lemma scan_repo_first:
  "\<exists>rest. fst (scan_repo fuel cfg w r) =
     Logged [[Str (js ''[''), Str (owner r), Str (js ''/''), Str (name r),
              Str (js ''] Checking open PRs for inactive reviewers (> ''),
              Flt (REVIEW_HOURS cfg), Str (js ''h)'')]] # rest"
  by (simp add: scan_repo_def notifyInactiveReviewers_def log_def fst_seq snd_seq
      split: outcome.splits)

lemma catch_repo_first:
  "fst m = ev # rest \<Longrightarrow> \<exists>rest'. fst (catch_repo r m) = ev # rest'"
  by (cases m; cases "snd m") (simp_all add: catch_repo_def)

lemma scan_repo_either:
  "snd (scan_repo fuel cfg w r) = Throw e \<longleftrightarrow>
     snd (notifyInactiveReviewers fuel cfg w (owner r) (name r)) = Throw e
     \<or> (snd (notifyInactiveReviewers fuel cfg w (owner r) (name r)) = Ok ()
        \<and> snd (notifyUndeletedBranches fuel cfg w (owner r) (name r)) = Throw e)"
  by (auto simp: scan_repo_def snd_seq split: outcome.splits)

lemma main_events:
  assumes "snd (listRepos fuel cfg w) = Ok repos"
    and "\<forall>r\<in>set repos. snd (scan_repo fuel cfg w r) \<noteq> OutOfFuel"
  shows "main fuel cfg w =
     (fst (listRepos fuel cfg w)
        @ Logged [[Str (js ''Target repositories:'')],
                  [Str (join (js '', '') (map (\<lambda>r. owner r @ (js ''/'') @ name r) repos))]]
        # concat (map (\<lambda>r. fst (catch_repo r (scan_repo fuel cfg w r))) repos)
        @ [Logged [[Str (js ''Completed run'')]]],
      Ok ())"
proof -
  from for_repos_all [OF assms(2)]
  have "for_repos fuel cfg w repos =
      (concat (map (\<lambda>r. fst (catch_repo r (scan_repo fuel cfg w r))) repos), Ok ())"
    by (simp add: prod_eq_iff)
  with assms(1) show ?thesis
    by (cases "listRepos fuel cfg w") (simp add: main_def seq_def log_def)
qed

lemma scan_repo_Ok:
  "snd (notifyInactiveReviewers fuel cfg w (owner r) (name r)) = Ok () \<Longrightarrow>
   scan_repo fuel cfg w r =
     (fst (notifyInactiveReviewers fuel cfg w (owner r) (name r))
        @ fst (notifyUndeletedBranches fuel cfg w (owner r) (name r)),
      snd (notifyUndeletedBranches fuel cfg w (owner r) (name r)))"
  by (cases "notifyInactiveReviewers fuel cfg w (owner r) (name r)")
     (simp add: scan_repo_def seq_def split: prod.splits)

lemma remind_reviewer_returns: "snd (remind_reviewer cfg w own repo pr reviews R) \<noteq> OutOfFuel"
  by (simp add: remind_reviewer_def Let_def log_def snd_seq snd_call split: sum.splits)

lemma for_reviewers_returns: "snd (for_reviewers cfg w own repo pr reviews rs) \<noteq> OutOfFuel"
  by (induction rs) (simp_all add: snd_seq remind_reviewer_returns split: outcome.splits)

lemma check_reviewers_returns: "snd (check_reviewers cfg w own repo pr) \<noteq> OutOfFuel"
  by (simp add: check_reviewers_def snd_seq snd_call for_reviewers_returns split: sum.splits)

lemma for_open_prs_returns: "snd (for_open_prs cfg w own repo prs) \<noteq> OutOfFuel"
  by (induction prs) (simp_all add: snd_seq check_reviewers_returns split: outcome.splits)

lemma open_pages_returns:
  "\<exists>k<fuel. (case pulls_list w own repo Open (page + k) of Inl e \<Rightarrow> True | Inr prs \<Rightarrow> prs = []) \<Longrightarrow>
   snd (open_pages fuel cfg w own repo page) \<noteq> OutOfFuel"
proof (induction fuel arbitrary: page)
  case 0
  then show ?case by simp
next
  case (Suc fuel)
  show ?case
  proof (cases "pulls_list w own repo Open page")
    case (Inl e)
    then show ?thesis by (simp add: open_pages_Inl del: open_pages.simps)
  next
    case (Inr prs)
    show ?thesis
    proof (cases "prs = []")
      case True
      with Inr show ?thesis by (simp add: open_pages_empty del: open_pages.simps)
    next
      case False
      from Suc.prems obtain k where k: "k < Suc fuel"
        "case pulls_list w own repo Open (page + k) of Inl e \<Rightarrow> True | Inr prs \<Rightarrow> prs = []"
        by blast
      with Inr False have "k \<noteq> 0" by (auto intro: ccontr)
      then obtain k' where k': "k = Suc k'" by (cases k) simp_all
      with k have "\<exists>k<fuel. (case pulls_list w own repo Open (page + 1 + k) of Inl e \<Rightarrow> True | Inr prs \<Rightarrow> prs = [])"
        by auto
      from Suc.IH [OF this] for_open_prs_returns [of cfg w own repo prs]
      show ?thesis
        unfolding open_pages_more [OF Inr False]
        by (simp add: snd_seq split: outcome.splits)
    qed
  qed
qed

lemma closed_pages_returns:
  "\<exists>k<fuel. (case pulls_list w own repo Closed (page + k) of Inl e \<Rightarrow> True | Inr prs \<Rightarrow> prs = []) \<Longrightarrow>
   snd (closed_pages fuel cfg w own repo page) \<noteq> OutOfFuel"
proof (induction fuel arbitrary: page)
  case 0
  then show ?case by simp
next
  case (Suc fuel)
  show ?case
  proof (cases "pulls_list w own repo Closed page")
    case (Inl e)
    then show ?thesis by (simp add: closed_pages_Inl del: closed_pages.simps)
  next
    case (Inr prs)
    show ?thesis
    proof (cases "\<forall>p\<in>set prs. updated_at p < since cfg w")
      case True
      show ?thesis unfolding closed_pages_stop [OF Inr True] by simp
    next
      case False
      then have inw: "\<exists>p\<in>set prs. since cfg w \<le> updated_at p" by (meson linorder_not_less)
      then have ne: "prs \<noteq> []" by auto
      from Suc.prems obtain k where k: "k < Suc fuel"
        "case pulls_list w own repo Closed (page + k) of Inl e \<Rightarrow> True | Inr prs \<Rightarrow> prs = []"
        by blast
      with Inr ne have "k \<noteq> 0" by (auto intro: ccontr)
      then obtain k' where k': "k = Suc k'" by (cases k) simp_all
      with k have "\<exists>k<fuel. (case pulls_list w own repo Closed (page + 1 + k) of Inl e \<Rightarrow> True | Inr prs \<Rightarrow> prs = [])"
        by auto
      from Suc.IH [OF this] show ?thesis
        unfolding closed_pages_continue [OF Inr inw] by simp
    qed
  qed
qed

lemma ends_within_offset:
  "ends_within fuel w own repo st \<Longrightarrow>
   \<exists>k<fuel. (case pulls_list w own repo st (1 + k) of Inl e \<Rightarrow> True | Inr prs \<Rightarrow> prs = [])"
proof -
  assume "ends_within fuel w own repo st"
  then obtain page where p: "1 \<le> page" "page < Suc fuel"
    "case pulls_list w own repo st page of Inl e \<Rightarrow> True | Inr prs \<Rightarrow> prs = []"
    by (auto simp: ends_within_def)
  then have "page - 1 < fuel" "1 + (page - 1) = page" by simp_all
  with p(3) show ?thesis by metis
qed

lemma scan_repo_returns:
  assumes "ends_within fuel w (owner r) (name r) Open" and "ends_within fuel w (owner r) (name r) Closed"
  shows "snd (scan_repo fuel cfg w r) \<noteq> OutOfFuel"
proof -
  from open_pages_returns [OF ends_within_offset [OF assms(1)]]
  have "snd (notifyInactiveReviewers fuel cfg w (owner r) (name r)) \<noteq> OutOfFuel"
    by (simp add: notifyInactiveReviewers_def snd_seq log_def)
  moreover from closed_pages_returns [OF ends_within_offset [OF assms(2)]]
  have "snd (notifyUndeletedBranches fuel cfg w (owner r) (name r)) \<noteq> OutOfFuel"
    by (simp add: notifyUndeletedBranches_def snd_seq log_def)
  ultimately show ?thesis
    by (simp add: scan_repo_def snd_seq split: outcome.splits)
qed

text \<open>
  Claim C6. The loop of \<open>main\<close> over the repositories never throws. When the listings
  of the open and of the closed pull requests of each repository end within the fuel
  (a page is empty or its request fails), the loop returns and its events are those of
  every repository, in order; the events of a repository start with the line announcing
  its scan, and are those of the scan of its open pull requests followed, when that scan
  returns, by those of the scan of its closed pull requests: every repository is
  attempted. An error thrown by either scan of a repository is caught and logged with
  \<open>owner/name\<close> and the status (or message). Once the repositories are resolved, the
  events of \<open>main\<close> are those of the resolution, the line naming the targets, the events
  of every repository in order and the line \<open>Completed run\<close>, and \<open>main\<close> returns.
\<close>

theorem repo_failure_isolated:
  "snd (for_repos fuel cfg w repos) \<noteq> Throw e
   \<and> ((\<forall>r\<in>set repos. ends_within fuel w (owner r) (name r) Open
                        \<and> ends_within fuel w (owner r) (name r) Closed) \<longrightarrow>
        snd (for_repos fuel cfg w repos) = Ok ()
        \<and> fst (for_repos fuel cfg w repos) =
            concat (map (\<lambda>r. fst (catch_repo r (scan_repo fuel cfg w r))) repos))
   \<and> (\<exists>rest. fst (catch_repo r (scan_repo fuel cfg w r)) =
        Logged [[Str (js ''[''), Str (owner r), Str (js ''/''), Str (name r),
                 Str (js ''] Checking open PRs for inactive reviewers (> ''),
                 Flt (REVIEW_HOURS cfg), Str (js ''h)'')]] # rest)
   \<and> (snd (notifyInactiveReviewers fuel cfg w (owner r) (name r)) = Ok () \<longrightarrow>
        scan_repo fuel cfg w r =
          (fst (notifyInactiveReviewers fuel cfg w (owner r) (name r))
             @ fst (notifyUndeletedBranches fuel cfg w (owner r) (name r)),
           snd (notifyUndeletedBranches fuel cfg w (owner r) (name r))))
   \<and> (snd (notifyInactiveReviewers fuel cfg w (owner r1) (name r1)) = Throw e1
       \<or> snd (notifyInactiveReviewers fuel cfg w (owner r1) (name r1)) = Ok ()
          \<and> snd (notifyUndeletedBranches fuel cfg w (owner r1) (name r1)) = Throw e1 \<longrightarrow>
        catch_repo r1 (scan_repo fuel cfg w r1) =
          (fst (scan_repo fuel cfg w r1)
             @ [Logged [[Str (js ''Error processing repo ''), Str (owner r1), Str (js ''/''), Str (name r1),
                         Str (js '':'')], status_or_message e1]], Ok ()))
   \<and> (snd (listRepos fuel cfg w) = Ok repos \<and>
        (\<forall>r\<in>set repos. ends_within fuel w (owner r) (name r) Open
                       \<and> ends_within fuel w (owner r) (name r) Closed) \<longrightarrow>
        main fuel cfg w =
          (fst (listRepos fuel cfg w)
             @ Logged [[Str (js ''Target repositories:'')],
                       [Str (join (js '', '') (map (\<lambda>r. owner r @ (js ''/'') @ name r) repos))]]
             # concat (map (\<lambda>r. fst (catch_repo r (scan_repo fuel cfg w r))) repos)
             @ [Logged [[Str (js ''Completed run'')]]],
           Ok ()))"
proof (intro conjI impI)
  show "snd (for_repos fuel cfg w repos) \<noteq> Throw e"
    by (rule for_repos_never_throws)
next
  assume "\<forall>r\<in>set repos. ends_within fuel w (owner r) (name r) Open
                        \<and> ends_within fuel w (owner r) (name r) Closed"
  then have a: "\<forall>r\<in>set repos. snd (scan_repo fuel cfg w r) \<noteq> OutOfFuel"
    by (simp add: scan_repo_returns)
  from for_repos_all [OF a] show "snd (for_repos fuel cfg w repos) = Ok ()" by simp
  from for_repos_all [OF a] show "fst (for_repos fuel cfg w repos) =
            concat (map (\<lambda>r. fst (catch_repo r (scan_repo fuel cfg w r))) repos)" by simp
next
  from scan_repo_first [of fuel cfg w r] catch_repo_first [of "scan_repo fuel cfg w r" _ _ r]
  show "\<exists>rest. fst (catch_repo r (scan_repo fuel cfg w r)) =
        Logged [[Str (js ''[''), Str (owner r), Str (js ''/''), Str (name r),
                 Str (js ''] Checking open PRs for inactive reviewers (> ''),
                 Flt (REVIEW_HOURS cfg), Str (js ''h)'')]] # rest"
    by blast
next
  assume "snd (notifyInactiveReviewers fuel cfg w (owner r) (name r)) = Ok ()"
  then show "scan_repo fuel cfg w r =
          (fst (notifyInactiveReviewers fuel cfg w (owner r) (name r))
             @ fst (notifyUndeletedBranches fuel cfg w (owner r) (name r)),
           snd (notifyUndeletedBranches fuel cfg w (owner r) (name r)))"
    by (rule scan_repo_Ok)
next
  assume "snd (notifyInactiveReviewers fuel cfg w (owner r1) (name r1)) = Throw e1
       \<or> snd (notifyInactiveReviewers fuel cfg w (owner r1) (name r1)) = Ok ()
          \<and> snd (notifyUndeletedBranches fuel cfg w (owner r1) (name r1)) = Throw e1"
  then have "snd (scan_repo fuel cfg w r1) = Throw e1"
    by (simp add: scan_repo_either)
  then show "catch_repo r1 (scan_repo fuel cfg w r1) =
          (fst (scan_repo fuel cfg w r1)
             @ [Logged [[Str (js ''Error processing repo ''), Str (owner r1), Str (js ''/''), Str (name r1),
                         Str (js '':'')], status_or_message e1]], Ok ())"
    by (simp add: catch_repo_Throw repo_error_line_def)
next
  assume "snd (listRepos fuel cfg w) = Ok repos \<and>
        (\<forall>r\<in>set repos. ends_within fuel w (owner r) (name r) Open
                       \<and> ends_within fuel w (owner r) (name r) Closed)"
  then have "snd (listRepos fuel cfg w) = Ok repos"
    and "\<forall>r\<in>set repos. snd (scan_repo fuel cfg w r) \<noteq> OutOfFuel"
    by (simp_all add: scan_repo_returns)
  then show "main fuel cfg w =
          (fst (listRepos fuel cfg w)
             @ Logged [[Str (js ''Target repositories:'')],
                       [Str (join (js '', '') (map (\<lambda>r. owner r @ (js ''/'') @ name r) repos))]]
             # concat (map (\<lambda>r. fst (catch_repo r (scan_repo fuel cfg w r))) repos)
             @ [Logged [[Str (js ''Completed run'')]]],
           Ok ())"
    by (rule main_events)
qed

lemmas main_defs = listRepos_def parseExplicitRepos_def REPOS_RAW_def trim_def
  is_space_def scan_repo_def notifyInactiveReviewers_def
  notifyUndeletedBranches_def seq_def call_def log_def catch_repo_def repo_error_line_def
  cfg_two_def cfg_acme_def world_broken_def quiet_def js_def

theorem repo_failure_isolated_witness:
  "ends_within (Suc (Suc 0)) world_broken (js ''acme'') (js ''web'') Open
   \<and> ends_within (Suc (Suc 0)) world_broken (js ''acme'') (js ''web'') Closed
   \<and> ends_within (Suc (Suc 0)) world_broken (js ''acme'') (js ''api'') Open
   \<and> ends_within (Suc (Suc 0)) world_broken (js ''acme'') (js ''api'') Closed
   \<and> snd (notifyInactiveReviewers (Suc (Suc 0)) cfg_two world_broken (js ''acme'') (js ''web''))
       = Throw (RequestError 404 (js ''Not Found''))
   \<and> listRepos (Suc (Suc 0)) cfg_two world_broken
       = ([], Ok [\<lparr>owner = js ''acme'', name = js ''web''\<rparr>, \<lparr>owner = js ''acme'', name = js ''api''\<rparr>])
   \<and> snd (for_repos (Suc (Suc 0)) cfg_two world_broken
        [\<lparr>owner = js ''acme'', name = js ''web''\<rparr>, \<lparr>owner = js ''acme'', name = js ''api''\<rparr>]) = Ok ()
   \<and> catch_repo \<lparr>owner = js ''acme'', name = js ''web''\<rparr>
        (scan_repo (Suc (Suc 0)) cfg_two world_broken \<lparr>owner = js ''acme'', name = js ''web''\<rparr>) =
        (fst (scan_repo (Suc (Suc 0)) cfg_two world_broken \<lparr>owner = js ''acme'', name = js ''web''\<rparr>)
           @ [Logged [[Str (js ''Error processing repo ''), Str (js ''acme''), Str (js ''/''), Str (js ''web''),
                       Str (js '':'')], [Num 404]]], Ok ())
   \<and> main (Suc (Suc 0)) cfg_two world_broken =
       ([Logged [[Str (js ''Target repositories:'')], [Str (js ''acme/web, acme/api'')]],
         Logged [[Str (js ''[''), Str (js ''acme''), Str (js ''/''), Str (js ''web''),
                  Str (js ''] Checking open PRs for inactive reviewers (> ''), Flt 12, Str (js ''h)'')]],
         PullsList (js ''acme'') (js ''web'') Open 1,
         Logged [[Str (js ''Error processing repo ''), Str (js ''acme''), Str (js ''/''), Str (js ''web''), Str (js '':'')],
                 [Num 404]],
         Logged [[Str (js ''[''), Str (js ''acme''), Str (js ''/''), Str (js ''api''),
                  Str (js ''] Checking open PRs for inactive reviewers (> ''), Flt 12, Str (js ''h)'')]],
         PullsList (js ''acme'') (js ''api'') Open 1,
         Logged [[Str (js ''[''), Str (js ''acme''), Str (js ''/''), Str (js ''api''),
                  Str (js ''] Checking merged PRs for undeleted branches (lookback ''), Flt 14, Str (js ''d)'')]],
         PullsList (js ''acme'') (js ''api'') Closed 1,
         Logged [[Str (js ''Completed run'')]]], Ok ())"
proof -
  have e: "ends_within (Suc (Suc 0)) world_broken (js ''acme'') (js ''web'') Open"
    "ends_within (Suc (Suc 0)) world_broken (js ''acme'') (js ''web'') Closed"
    "ends_within (Suc (Suc 0)) world_broken (js ''acme'') (js ''api'') Open"
    "ends_within (Suc (Suc 0)) world_broken (js ''acme'') (js ''api'') Closed"
    by (auto simp: ends_within_def world_broken_def quiet_def)
  then have a1: "\<forall>r\<in>set [\<lparr>owner = js ''acme'', name = js ''web''\<rparr>, \<lparr>owner = js ''acme'', name = js ''api''\<rparr>].
       ends_within (Suc (Suc 0)) world_broken (owner r) (name r) Open
       \<and> ends_within (Suc (Suc 0)) world_broken (owner r) (name r) Closed"
    by simp
  have a2: "snd (notifyInactiveReviewers (Suc (Suc 0)) cfg_two world_broken (js ''acme'') (js ''web''))
       = Throw (RequestError 404 (js ''Not Found''))"
    by (simp add: main_defs)
  have a3: "listRepos (Suc (Suc 0)) cfg_two world_broken
       = ([], Ok [\<lparr>owner = js ''acme'', name = js ''web''\<rparr>, \<lparr>owner = js ''acme'', name = js ''api''\<rparr>])"
    by (simp add: main_defs)
  have s1: "fst (catch_repo \<lparr>owner = js ''acme'', name = js ''web''\<rparr>
        (scan_repo (Suc (Suc 0)) cfg_two world_broken \<lparr>owner = js ''acme'', name = js ''web''\<rparr>)) =
        [Logged [[Str (js ''[''), Str (js ''acme''), Str (js ''/''), Str (js ''web''),
                  Str (js ''] Checking open PRs for inactive reviewers (> ''), Flt 12, Str (js ''h)'')]],
         PullsList (js ''acme'') (js ''web'') Open 1,
         Logged [[Str (js ''Error processing repo ''), Str (js ''acme''), Str (js ''/''), Str (js ''web''), Str (js '':'')],
                 [Num 404]]]"
    by (simp add: main_defs)
  have s2: "fst (catch_repo \<lparr>owner = js ''acme'', name = js ''api''\<rparr>
        (scan_repo (Suc (Suc 0)) cfg_two world_broken \<lparr>owner = js ''acme'', name = js ''api''\<rparr>)) =
        [Logged [[Str (js ''[''), Str (js ''acme''), Str (js ''/''), Str (js ''api''),
                  Str (js ''] Checking open PRs for inactive reviewers (> ''), Flt 12, Str (js ''h)'')]],
         PullsList (js ''acme'') (js ''api'') Open 1,
         Logged [[Str (js ''[''), Str (js ''acme''), Str (js ''/''), Str (js ''api''),
                  Str (js ''] Checking merged PRs for undeleted branches (lookback ''), Flt 14, Str (js ''d)'')]],
         PullsList (js ''acme'') (js ''api'') Closed 1]"
    by (simp add: main_defs)
  note t = repo_failure_isolated [of "Suc (Suc 0)" cfg_two world_broken
      "[\<lparr>owner = js ''acme'', name = js ''web''\<rparr>, \<lparr>owner = js ''acme'', name = js ''api''\<rparr>]"
      "RequestError 404 (js ''Not Found'')" "\<lparr>owner = js ''acme'', name = js ''web''\<rparr>"
      "\<lparr>owner = js ''acme'', name = js ''web''\<rparr>" "RequestError 404 (js ''Not Found'')"]
  from t a1 have c1: "snd (for_repos (Suc (Suc 0)) cfg_two world_broken
        [\<lparr>owner = js ''acme'', name = js ''web''\<rparr>, \<lparr>owner = js ''acme'', name = js ''api''\<rparr>]) = Ok ()"
    by blast
  from t a2 have c2: "catch_repo \<lparr>owner = js ''acme'', name = js ''web''\<rparr>
        (scan_repo (Suc (Suc 0)) cfg_two world_broken \<lparr>owner = js ''acme'', name = js ''web''\<rparr>) =
        (fst (scan_repo (Suc (Suc 0)) cfg_two world_broken \<lparr>owner = js ''acme'', name = js ''web''\<rparr>)
           @ [Logged [[Str (js ''Error processing repo ''), Str (js ''acme''), Str (js ''/''), Str (js ''web''),
                       Str (js '':'')], [Num 404]]], Ok ())"
    by simp
  from a3 have a3': "snd (listRepos (Suc (Suc 0)) cfg_two world_broken)
       = Ok [\<lparr>owner = js ''acme'', name = js ''web''\<rparr>, \<lparr>owner = js ''acme'', name = js ''api''\<rparr>]"
    by simp
  from t a1 a3' have "main (Suc (Suc 0)) cfg_two world_broken =
          (fst (listRepos (Suc (Suc 0)) cfg_two world_broken)
             @ Logged [[Str (js ''Target repositories:'')],
                       [Str (join (js '', '') (map (\<lambda>r. owner r @ (js ''/'') @ name r)
                          [\<lparr>owner = js ''acme'', name = js ''web''\<rparr>, \<lparr>owner = js ''acme'', name = js ''api''\<rparr>]))]]
             # concat (map (\<lambda>r. fst (catch_repo r (scan_repo (Suc (Suc 0)) cfg_two world_broken r)))
                  [\<lparr>owner = js ''acme'', name = js ''web''\<rparr>, \<lparr>owner = js ''acme'', name = js ''api''\<rparr>])
             @ [Logged [[Str (js ''Completed run'')]]],
           Ok ())"
    by blast
  then have c3: "main (Suc (Suc 0)) cfg_two world_broken =
       ([Logged [[Str (js ''Target repositories:'')], [Str (js ''acme/web, acme/api'')]],
         Logged [[Str (js ''[''), Str (js ''acme''), Str (js ''/''), Str (js ''web''),
                  Str (js ''] Checking open PRs for inactive reviewers (> ''), Flt 12, Str (js ''h)'')]],
         PullsList (js ''acme'') (js ''web'') Open 1,
         Logged [[Str (js ''Error processing repo ''), Str (js ''acme''), Str (js ''/''), Str (js ''web''), Str (js '':'')],
                 [Num 404]],
         Logged [[Str (js ''[''), Str (js ''acme''), Str (js ''/''), Str (js ''api''),
                  Str (js ''] Checking open PRs for inactive reviewers (> ''), Flt 12, Str (js ''h)'')]],
         PullsList (js ''acme'') (js ''api'') Open 1,
         Logged [[Str (js ''[''), Str (js ''acme''), Str (js ''/''), Str (js ''api''),
                  Str (js ''] Checking merged PRs for undeleted branches (lookback ''), Flt 14, Str (js ''d)'')]],
         PullsList (js ''acme'') (js ''api'') Closed 1,
         Logged [[Str (js ''Completed run'')]]], Ok ())"
    by (simp add: a3 s1 s2)
  from e a2 a3 c1 c2 c3 show ?thesis by blast
qed

subsection \<open>Resolving the repositories\<close>

lemma split_not_Nil: "split c s \<noteq> []"
  by (induction s) (auto split: list.splits)

lemma length_split: "length (split c s) \<ge> 1"
  using split_not_Nil [of c s] by (cases "split c s") simp_all

lemma REPOS_RAW_nonempty: "entry \<in> set (REPOS_RAW cfg) \<Longrightarrow> entry \<noteq> []"
  by (auto simp: REPOS_RAW_def)

lemma parse_entries_bad:
  "\<forall>e\<in>set es. e \<noteq> [] \<Longrightarrow> \<exists>e\<in>set es. bad_entry cfg e \<Longrightarrow>
   \<exists>m. parse_entries cfg es acc = Inl (Error m)"
proof (induction es arbitrary: acc)
  case Nil
  then show ?case by simp
next
  case (Cons e es)
  show ?case
  proof (cases "bad_entry cfg e")
    case True
    with Cons.prems(1) length_split [of "(of_char CHR ''/'')" e] show ?thesis
      by (auto simp: bad_entry_def Let_def)
  next
    case False
    with Cons.prems have "\<forall>e\<in>set es. e \<noteq> []" "\<exists>e\<in>set es. bad_entry cfg e" by auto
    from Cons.IH [OF this] False Cons.prems(1) length_split [of "(of_char CHR ''/'')" e]
    show ?thesis
      by (auto simp: bad_entry_def Let_def)
  qed
qed

lemma parse_entries_good:
  "\<forall>e\<in>set es. e \<noteq> [] \<and> \<not> bad_entry cfg e \<Longrightarrow>
   parse_entries cfg es acc = Inr (acc @ map (parse_entry cfg) es)"
proof (induction es arbitrary: acc)
  case Nil
  then show ?case by simp
next
  case (Cons e es)
  from Cons.prems have e: "e \<noteq> []" "\<not> bad_entry cfg e" and rest: "\<forall>e\<in>set es. e \<noteq> [] \<and> \<not> bad_entry cfg e"
    by auto
  from e length_split [of "(of_char CHR ''/'')" e]
  have "length (split (of_char CHR ''/'') e) = 1 \<and> OWNER cfg \<noteq> [] \<or> length (split (of_char CHR ''/'') e) = 2"
    by (auto simp: bad_entry_def)
  then show ?case
  proof
    assume "length (split (of_char CHR ''/'') e) = 1 \<and> OWNER cfg \<noteq> []"
    with e show ?thesis by (simp add: Let_def Cons.IH [OF rest] parse_entry_def)
  next
    assume "length (split (of_char CHR ''/'') e) = 2"
    with e show ?thesis by (simp add: Let_def Cons.IH [OF rest] parse_entry_def)
  qed
qed

lemma parseExplicitRepos_bad:
  "\<exists>e\<in>set (REPOS_RAW cfg). bad_entry cfg e \<Longrightarrow> \<exists>m. parseExplicitRepos cfg = Inl (Error m)"
  using parse_entries_bad [of "REPOS_RAW cfg" cfg "[]"] REPOS_RAW_nonempty [of _ cfg]
  by (auto simp: parseExplicitRepos_def)

lemma parseExplicitRepos_good:
  "\<forall>e\<in>set (REPOS_RAW cfg). \<not> bad_entry cfg e \<Longrightarrow>
   parseExplicitRepos cfg = Inr (map (parse_entry cfg) (REPOS_RAW cfg))"
  using parse_entries_good [of "REPOS_RAW cfg" cfg "[]"] REPOS_RAW_nonempty [of _ cfg]
  by (auto simp: parseExplicitRepos_def)

lemma listRepos_bad:
  "\<exists>e\<in>set (REPOS_RAW cfg). bad_entry cfg e \<Longrightarrow> \<exists>m. listRepos fuel cfg w = ([], Throw (Error m))"
  using parseExplicitRepos_bad [of cfg] by (auto simp: listRepos_def)

lemma listRepos_explicit:
  "REPOS_RAW cfg \<noteq> [] \<Longrightarrow> \<forall>e\<in>set (REPOS_RAW cfg). \<not> bad_entry cfg e \<Longrightarrow>
   listRepos fuel cfg w = ([], Ok (map (parse_entry cfg) (REPOS_RAW cfg)))"
  by (simp add: listRepos_def parseExplicitRepos_good)

lemma listRepos_discover:
  "REPOS_RAW cfg = [] \<Longrightarrow> listRepos fuel cfg w = autoDiscoverRepos fuel cfg w"
  by (simp add: listRepos_def parseExplicitRepos_def)

lemma autoDiscoverRepos_no_owner:
  "OWNER cfg = [] \<Longrightarrow>
   autoDiscoverRepos fuel cfg w = ([], Throw (Error (js ''OWNER env var required when REPOS not provided.'')))"
  by (simp add: autoDiscoverRepos_def)

lemma autoDiscoverRepos_first:
  "OWNER cfg \<noteq> [] \<Longrightarrow>
   \<exists>rest. fst (autoDiscoverRepos fuel cfg w) =
     Logged [[Str (js ''Auto-discovering repositories for owner'')], [Str (OWNER cfg)]] # rest"
  by (simp add: autoDiscoverRepos_def log_def fst_seq)

lemma listRepos_config_error_iff:
  "(\<exists>e. listRepos fuel cfg w = ([], Throw e)) \<longleftrightarrow>
     (REPOS_RAW cfg = [] \<and> OWNER cfg = []) \<or> (\<exists>entry\<in>set (REPOS_RAW cfg). bad_entry cfg entry)"
proof (cases "\<exists>entry\<in>set (REPOS_RAW cfg). bad_entry cfg entry")
  case True
  with listRepos_bad [of cfg fuel w] show ?thesis by auto
next
  case False
  then have good: "\<forall>e\<in>set (REPOS_RAW cfg). \<not> bad_entry cfg e" by simp
  show ?thesis
  proof (cases "REPOS_RAW cfg = []")
    case True
    show ?thesis
    proof (cases "OWNER cfg = []")
      case True
      with \<open>REPOS_RAW cfg = []\<close> show ?thesis
        by (simp add: listRepos_discover autoDiscoverRepos_no_owner)
    next
      case False
      from autoDiscoverRepos_first [OF False, of fuel w]
      have "fst (autoDiscoverRepos fuel cfg w) \<noteq> []" by auto
      with False \<open>REPOS_RAW cfg = []\<close> good show ?thesis
        by (auto simp: listRepos_discover)
    qed
  next
    case False
    with good show ?thesis by (simp add: listRepos_explicit)
  qed
qed

lemma listRepos_config_error_kind:
  assumes "listRepos fuel cfg w = ([], Throw e)"
  shows "\<exists>m. e = Error m"
proof -
  from assms have "(REPOS_RAW cfg = [] \<and> OWNER cfg = []) \<or> (\<exists>entry\<in>set (REPOS_RAW cfg). bad_entry cfg entry)"
    using listRepos_config_error_iff [of fuel cfg w] by blast
  then show ?thesis
  proof
    assume "REPOS_RAW cfg = [] \<and> OWNER cfg = []"
    with assms show ?thesis by (auto simp: listRepos_discover autoDiscoverRepos_no_owner)
  next
    assume "\<exists>entry\<in>set (REPOS_RAW cfg). bad_entry cfg entry"
    from listRepos_bad [OF this, of fuel w] assms show ?thesis by auto
  qed
qed

lemma main_listRepos_throws:
  "listRepos fuel cfg w = (tr, Throw e) \<Longrightarrow> main fuel cfg w = (tr, Throw e)"
  by (simp add: main_def seq_def)

text \<open>
  Claim C7. Resolution throws before any event (no log line, no remote call) exactly when
  the parsed list is empty and no owner is configured, or some entry of the parsed list
  is a bare name with no owner configured or has more than two parts. What is thrown
  then is a plain \<open>Error\<close>, and \<open>main\<close> ends with it before anything is scanned. When
  the parsed list is not empty and has no such entry, resolution returns its entries,
  each parsed as \<open>owner/name\<close> or as a bare name under the configured owner, again with
  no event.
\<close>

theorem resolution_fails_iff:
  "((\<exists>e. listRepos fuel cfg w = ([], Throw e)) \<longleftrightarrow>
      (REPOS_RAW cfg = [] \<and> OWNER cfg = []) \<or> (\<exists>entry\<in>set (REPOS_RAW cfg). bad_entry cfg entry))
   \<and> (listRepos fuel cfg w = ([], Throw e) \<longrightarrow>
        (\<exists>m. e = Error m) \<and> main fuel cfg w = ([], Throw e))
   \<and> (REPOS_RAW cfg \<noteq> [] \<and> (\<forall>entry\<in>set (REPOS_RAW cfg). \<not> bad_entry cfg entry) \<longrightarrow>
        listRepos fuel cfg w = ([], Ok (map (parse_entry cfg) (REPOS_RAW cfg))))"
  using listRepos_config_error_iff [of fuel cfg w] listRepos_config_error_kind [of fuel cfg w e]
    main_listRepos_throws [of fuel cfg w "[]" e] listRepos_explicit [of cfg fuel w]
  by blast

lemmas resolve_defs = listRepos_def parseExplicitRepos_def REPOS_RAW_def trim_def is_space_def
  bad_entry_def parse_entry_def autoDiscoverRepos_def
  cfg_blank_def cfg_bare_def cfg_deep_def cfg_two_def cfg_acme_def js_def

theorem resolution_fails_iff_witness:
  "(REPOS_RAW cfg_blank = [] \<and> OWNER cfg_blank = [])
   \<and> (\<exists>e. listRepos 0 cfg_blank quiet = ([], Throw e))
   \<and> (\<exists>entry\<in>set (REPOS_RAW cfg_bare). bad_entry cfg_bare entry)
   \<and> (\<exists>e. listRepos 0 cfg_bare quiet = ([], Throw e))
   \<and> (\<exists>entry\<in>set (REPOS_RAW cfg_deep). bad_entry cfg_deep entry)
   \<and> (\<exists>e. listRepos 0 cfg_deep quiet = ([], Throw e))
   \<and> listRepos 0 cfg_deep quiet = ([], Throw (Error ((js ''Invalid repo spec: '') @ (js [CHR 0x27])
         @ (js ''acme/web/extra'') @ (js [CHR 0x27]) @ (js ''. Use 'owner/repo' or 'repo'.''))))
   \<and> main 0 cfg_deep quiet = ([], Throw (Error ((js ''Invalid repo spec: '') @ (js [CHR 0x27])
         @ (js ''acme/web/extra'') @ (js [CHR 0x27]) @ (js ''. Use 'owner/repo' or 'repo'.''))))
   \<and> REPOS_RAW cfg_two = [js ''web'', js ''acme/api'']
   \<and> \<not> bad_entry cfg_two (js ''web'') \<and> \<not> bad_entry cfg_two (js ''acme/api'')
   \<and> listRepos 0 cfg_two quiet =
        ([], Ok [\<lparr>owner = js ''acme'', name = js ''web''\<rparr>, \<lparr>owner = js ''acme'', name = js ''api''\<rparr>])"
proof -
  have a1: "REPOS_RAW cfg_blank = [] \<and> OWNER cfg_blank = []"
    by (simp add: resolve_defs)
  have a2: "\<exists>entry\<in>set (REPOS_RAW cfg_bare). bad_entry cfg_bare entry"
    by (simp add: resolve_defs)
  have a3: "\<exists>entry\<in>set (REPOS_RAW cfg_deep). bad_entry cfg_deep entry"
    by (simp add: resolve_defs)
  have a4: "listRepos 0 cfg_deep quiet = ([], Throw (Error ((js ''Invalid repo spec: '') @ (js [CHR 0x27])
         @ (js ''acme/web/extra'') @ (js [CHR 0x27]) @ (js ''. Use 'owner/repo' or 'repo'.''))))"
    by (simp add: resolve_defs)
  have a5: "REPOS_RAW cfg_two \<noteq> [] \<and> (\<forall>entry\<in>set (REPOS_RAW cfg_two). \<not> bad_entry cfg_two entry)"
    by (simp add: resolve_defs)
  have p: "map (parse_entry cfg_two) (REPOS_RAW cfg_two) =
      [\<lparr>owner = js ''acme'', name = js ''web''\<rparr>, \<lparr>owner = js ''acme'', name = js ''api''\<rparr>]"
    by (simp add: resolve_defs)
  from resolution_fails_iff [of 0 cfg_blank quiet] a1
  have c1: "\<exists>e. listRepos 0 cfg_blank quiet = ([], Throw e)" by blast
  from resolution_fails_iff [of 0 cfg_bare quiet] a2
  have c2: "\<exists>e. listRepos 0 cfg_bare quiet = ([], Throw e)" by blast
  from resolution_fails_iff [of 0 cfg_deep quiet] a3
  have c3: "\<exists>e. listRepos 0 cfg_deep quiet = ([], Throw e)" by blast
  from resolution_fails_iff [of 0 cfg_deep quiet "Error ((js ''Invalid repo spec: '') @ (js [CHR 0x27])
         @ (js ''acme/web/extra'') @ (js [CHR 0x27]) @ (js ''. Use 'owner/repo' or 'repo'.''))"] a4
  have c4: "main 0 cfg_deep quiet = ([], Throw (Error ((js ''Invalid repo spec: '') @ (js [CHR 0x27])
         @ (js ''acme/web/extra'') @ (js [CHR 0x27]) @ (js ''. Use 'owner/repo' or 'repo'.''))))" by blast
  from resolution_fails_iff [of 0 cfg_two quiet] a5 p
  have c5: "listRepos 0 cfg_two quiet =
        ([], Ok [\<lparr>owner = js ''acme'', name = js ''web''\<rparr>, \<lparr>owner = js ''acme'', name = js ''api''\<rparr>])"
    by simp
  have a5': "REPOS_RAW cfg_two = [js ''web'', js ''acme/api'']"
    "\<not> bad_entry cfg_two (js ''web'')" "\<not> bad_entry cfg_two (js ''acme/api'')"
    by (simp_all add: resolve_defs)
  from a1 a2 a3 a4 a5' c1 c2 c3 c4 c5 show ?thesis by blast
qed

lemma trim_blank: "(\<forall>c\<in>set s. is_space c) \<Longrightarrow> trim s = []"
proof -
  assume "\<forall>c\<in>set s. is_space c"
  then have d: "dropWhile is_space s = []" by simp
  show ?thesis unfolding trim_def d by simp
qed

lemma REPOS_RAW_blank:
  "\<forall>entry\<in>set (split (of_char CHR '','') (REPOS cfg)). \<forall>c\<in>set entry. is_space c \<Longrightarrow>
   REPOS_RAW cfg = []"
  by (simp add: REPOS_RAW_def filter_empty_conv trim_blank)

text \<open>
  Claim C9. When every entry of the comma-separated \<open>REPOS\<close> is empty or made of
  white space only (any of the code units \<open>trim\<close> removes), the parsed list is empty and
  resolution is auto-discovery: without an owner it throws the error asking for
  \<open>OWNER\<close>, with an owner it starts discovering.
\<close>

theorem blank_list_discovers:
  "(\<forall>entry\<in>set (split (of_char CHR '','') (REPOS cfg)). \<forall>c\<in>set entry. is_space c) \<longrightarrow>
     REPOS_RAW cfg = []
     \<and> listRepos fuel cfg w = autoDiscoverRepos fuel cfg w
     \<and> (OWNER cfg = [] \<longrightarrow>
          listRepos fuel cfg w =
            ([], Throw (Error (js ''OWNER env var required when REPOS not provided.''))))
     \<and> (OWNER cfg \<noteq> [] \<longrightarrow>
          (\<exists>rest. fst (listRepos fuel cfg w) =
             Logged [[Str (js ''Auto-discovering repositories for owner'')], [Str (OWNER cfg)]] # rest))"
  using REPOS_RAW_blank [of cfg] listRepos_discover [of cfg fuel w]
    autoDiscoverRepos_no_owner [of cfg fuel w] autoDiscoverRepos_first [of cfg fuel w]
  by auto

theorem blank_list_discovers_witness:
  "split (of_char CHR '','') (REPOS cfg_blank) = [js '' '', js '' '']
   \<and> is_space (of_char CHR '' '')
   \<and> OWNER cfg_blank = []
   \<and> listRepos (Suc 0) cfg_blank quiet =
       ([], Throw (Error (js ''OWNER env var required when REPOS not provided.'')))
   \<and> split (of_char CHR '','') (REPOS cfg_blank_acme) = [js '' '', js ''  '', []]
   \<and> OWNER cfg_blank_acme \<noteq> []
   \<and> listRepos (Suc (Suc (Suc 0))) cfg_blank_acme world_user =
       autoDiscoverRepos (Suc (Suc (Suc 0))) cfg_blank_acme world_user
   \<and> fst (listRepos (Suc (Suc (Suc 0))) cfg_blank_acme world_user) =
       [Logged [[Str (js ''Auto-discovering repositories for owner'')], [Str (js ''acme'')]],
        ListForOrg (js ''acme'') 1, ListForUser (js ''acme'') 1,
        ListForOrg (js ''acme'') 2, ListForUser (js ''acme'') 2,
        ListForOrg (js ''acme'') 3, ListForUser (js ''acme'') 3]
   \<and> split (of_char CHR '','') (REPOS cfg_nbsp) = [[0xA0], [0x20, 0x3000, 0x09], [0x2028, 0xFEFF]]
   \<and> is_space 0xA0 \<and> is_space 0x3000 \<and> is_space 0x09 \<and> is_space 0x2028 \<and> is_space 0xFEFF
   \<and> REPOS_RAW cfg_nbsp = []
   \<and> OWNER cfg_nbsp \<noteq> []
   \<and> listRepos (Suc 0) cfg_nbsp world_user =
       autoDiscoverRepos (Suc 0) cfg_nbsp world_user
   \<and> fst (listRepos (Suc 0) cfg_nbsp world_user) =
       [Logged [[Str (js ''Auto-discovering repositories for owner'')], [Str (js ''acme'')]],
        ListForOrg (js ''acme'') 1, ListForUser (js ''acme'') 1]"
proof -
  have a1: "\<forall>entry\<in>set (split (of_char CHR '','') (REPOS cfg_blank)). \<forall>c\<in>set entry. is_space c"
    by (simp add: cfg_blank_def is_space_def js_def)
  have a2: "OWNER cfg_blank = []"
    by (simp add: cfg_blank_def)
  have a3: "\<forall>entry\<in>set (split (of_char CHR '','') (REPOS cfg_blank_acme)). \<forall>c\<in>set entry. is_space c"
    by (simp add: cfg_blank_acme_def is_space_def js_def)
  have a4: "OWNER cfg_blank_acme \<noteq> []" "OWNER cfg_nbsp \<noteq> []"
    by (simp_all add: cfg_blank_acme_def cfg_nbsp_def cfg_acme_def js_def)
  have a5: "\<forall>entry\<in>set (split (of_char CHR '','') (REPOS cfg_nbsp)). \<forall>c\<in>set entry. is_space c"
    by (simp add: cfg_nbsp_def is_space_def)
  have d: "fst (autoDiscoverRepos (Suc (Suc (Suc 0))) cfg_blank_acme world_user) =
       [Logged [[Str (js ''Auto-discovering repositories for owner'')], [Str (js ''acme'')]],
        ListForOrg (js ''acme'') 1, ListForUser (js ''acme'') 1,
        ListForOrg (js ''acme'') 2, ListForUser (js ''acme'') 2,
        ListForOrg (js ''acme'') 3, ListForUser (js ''acme'') 3]"
    by (simp add: autoDiscoverRepos_def fetch_repos_def seq_def log_def call_def kept_def
        cfg_blank_acme_def cfg_acme_def quiet_def world_user_def
        web_info_def fork_info_def attic_info_def org_info_def)
  have d': "fst (autoDiscoverRepos (Suc 0) cfg_nbsp world_user) =
       [Logged [[Str (js ''Auto-discovering repositories for owner'')], [Str (js ''acme'')]],
        ListForOrg (js ''acme'') 1, ListForUser (js ''acme'') 1]"
    by (simp add: autoDiscoverRepos_def fetch_repos_def seq_def log_def call_def kept_def
        cfg_nbsp_def cfg_acme_def quiet_def world_user_def
        web_info_def fork_info_def attic_info_def org_info_def)
  from blank_list_discovers [of cfg_blank "Suc 0" quiet] a1 a2
  have c1: "listRepos (Suc 0) cfg_blank quiet =
       ([], Throw (Error (js ''OWNER env var required when REPOS not provided.'')))"
    by blast
  from blank_list_discovers [of cfg_blank_acme "Suc (Suc (Suc 0))" world_user] a3
  have c2: "listRepos (Suc (Suc (Suc 0))) cfg_blank_acme world_user =
      autoDiscoverRepos (Suc (Suc (Suc 0))) cfg_blank_acme world_user"
    by blast
  from blank_list_discovers [of cfg_nbsp "Suc 0" world_user] a5
  have c3: "REPOS_RAW cfg_nbsp = []"
    "listRepos (Suc 0) cfg_nbsp world_user = autoDiscoverRepos (Suc 0) cfg_nbsp world_user"
    by blast+
  have s1: "split (of_char CHR '','') (REPOS cfg_blank) = [js '' '', js '' '']"
    "is_space (of_char CHR '' '')"
    by (simp_all add: cfg_blank_def is_space_def js_def)
  have s2: "split (of_char CHR '','') (REPOS cfg_blank_acme) = [js '' '', js ''  '', []]"
    by (simp add: cfg_blank_acme_def js_def)
  have s3: "split (of_char CHR '','') (REPOS cfg_nbsp) = [[0xA0], [0x20, 0x3000, 0x09], [0x2028, 0xFEFF]]"
    "is_space 0xA0" "is_space 0x3000" "is_space 0x09" "is_space 0x2028" "is_space 0xFEFF"
    by (simp_all add: cfg_nbsp_def is_space_def)
  from s1 s2 s3 a2 a4 c1 c2 c3 d d' show ?thesis by simp
qed

subsection \<open>Auto-discovery\<close>

lemma fetch_repos_not_found:
  assumes "repos_listForOrg w (OWNER cfg) page = Inl err" and "status err = Some 404"
  shows "fetch_repos cfg w page isOrg =
     (case repos_listForUser w (OWNER cfg) page of
        Inl e \<Rightarrow> ([ListForOrg (OWNER cfg) page, ListForUser (OWNER cfg) page], Throw e)
      | Inr data \<Rightarrow> ([ListForOrg (OWNER cfg) page, ListForUser (OWNER cfg) page], Ok (False, Some data)))"
  using assms by (simp add: fetch_repos_def seq_def call_def split: sum.splits)

lemma fetch_repos_failed:
  assumes "repos_listForOrg w (OWNER cfg) page = Inl err" and "status err \<noteq> Some 404"
  shows "fetch_repos cfg w page isOrg = ([ListForOrg (OWNER cfg) page], Throw err)"
  using assms by (simp add: fetch_repos_def seq_def)

lemma fetch_repos_org:
  assumes "repos_listForOrg w (OWNER cfg) page = Inr data"
  shows "fetch_repos cfg w page True = ([ListForOrg (OWNER cfg) page], Ok (True, Some data))"
  using assms by (simp add: fetch_repos_def seq_def)

lemma fetch_repos_user:
  assumes "repos_listForOrg w (OWNER cfg) page = Inr data"
  shows "fetch_repos cfg w page False =
     (case repos_listForUser w (OWNER cfg) page of
        Inl e \<Rightarrow> ([ListForOrg (OWNER cfg) page, ListForUser (OWNER cfg) page], Throw e)
      | Inr data \<Rightarrow> ([ListForOrg (OWNER cfg) page, ListForUser (OWNER cfg) page], Ok (False, Some data)))"
  using assms by (simp add: fetch_repos_def seq_def call_def split: sum.splits)

lemma fetch_repos_sticky:
  assumes "snd (fetch_repos cfg w page False) = Ok (isOrg', data)"
  shows "\<not> isOrg' \<and> (\<exists>d. data = Some d \<and> repos_listForUser w (OWNER cfg) page = Inr d)"
proof (cases "repos_listForOrg w (OWNER cfg) page")
  case (Inl err)
  show ?thesis
  proof (cases "status err = Some 404")
    case True
    from assms show ?thesis
      unfolding fetch_repos_not_found [OF Inl True] by (auto split: sum.splits)
  next
    case False
    from assms show ?thesis
      unfolding fetch_repos_failed [OF Inl False] by simp
  qed
next
  case (Inr d)
  from assms show ?thesis
    unfolding fetch_repos_user [OF Inr] by (auto split: sum.splits)
qed

lemma fetch_repos_sources:
  assumes "snd (fetch_repos cfg w page isOrg) = Ok (isOrg', Some d)"
  shows "repos_listForOrg w (OWNER cfg) page = Inr d \<or> repos_listForUser w (OWNER cfg) page = Inr d"
proof (cases "repos_listForOrg w (OWNER cfg) page")
  case (Inl err)
  show ?thesis
  proof (cases "status err = Some 404")
    case True
    from assms show ?thesis
      unfolding fetch_repos_not_found [OF Inl True] by (auto split: sum.splits)
  next
    case False
    from assms show ?thesis
      unfolding fetch_repos_failed [OF Inl False] by simp
  qed
next
  case (Inr d')
  show ?thesis
  proof (cases isOrg)
    case True
    with assms Inr show ?thesis by (simp add: fetch_repos_org)
  next
    case False
    with assms have "snd (fetch_repos cfg w page False) = Ok (isOrg', Some d)" by simp
    then show ?thesis
      unfolding fetch_repos_user [OF Inr] by (auto split: sum.splits)
  qed
qed

lemma discover_pages_Suc:
  "discover_pages (Suc fuel) cfg w page isOrg repos =
     (case fetch_repos cfg w page isOrg of
        (tr, Ok (isOrg', None)) \<Rightarrow> (tr, Ok repos)
      | (tr, Ok (isOrg', Some d)) \<Rightarrow>
          if d = [] then (tr, Ok repos)
          else (tr @ fst (discover_pages fuel cfg w (page + 1) isOrg' (repos @ kept cfg d)),
                snd (discover_pages fuel cfg w (page + 1) isOrg' (repos @ kept cfg d)))
      | (tr, Throw e) \<Rightarrow> (tr, Throw e)
      | (tr, OutOfFuel) \<Rightarrow> (tr, OutOfFuel))"
  by (simp add: seq_def split: prod.splits outcome.splits option.splits)

lemma discover_pages_user:
  "snd (discover_pages fuel cfg w page False repos) = Ok rs \<Longrightarrow>
   \<exists>k. rs = repos @ concat (map (\<lambda>p. kept cfg (user_page w (OWNER cfg) p)) [page..<page + k])"
proof (induction fuel arbitrary: page repos)
  case 0
  then show ?case by simp
next
  case (Suc fuel)
  obtain tr r where f: "fetch_repos cfg w page False = (tr, r)" by (cases "fetch_repos cfg w page False")
  show ?case
  proof (cases r)
    case (Ok x)
    obtain isOrg' data where x: "x = (isOrg', data)" by (cases x)
    from f Ok x have "snd (fetch_repos cfg w page False) = Ok (isOrg', data)" by simp
    from fetch_repos_sticky [OF this] obtain d where d: "\<not> isOrg'" "data = Some d"
        "repos_listForUser w (OWNER cfg) page = Inr d"
      by blast
    then have up: "user_page w (OWNER cfg) page = d" by (simp add: user_page_def)
    show ?thesis
    proof (cases "d = []")
      case True
      with Suc.prems f Ok x d have "rs = repos"
        by (simp add: discover_pages_Suc del: discover_pages.simps)
      then have "rs = repos @ concat (map (\<lambda>p. kept cfg (user_page w (OWNER cfg) p)) [page..<page + 0])"
        by simp
      then show ?thesis by blast
    next
      case False
      with Suc.prems f Ok x d
      have "snd (discover_pages fuel cfg w (page + 1) False (repos @ kept cfg d)) = Ok rs"
        by (simp add: discover_pages_Suc del: discover_pages.simps)
      from Suc.IH [OF this] obtain k where
        "rs = (repos @ kept cfg d) @ concat (map (\<lambda>p. kept cfg (user_page w (OWNER cfg) p)) [page + 1..<page + 1 + k])"
        by blast
      moreover have "[page..<page + Suc k] = page # [page + 1..<page + 1 + k]"
        by (simp add: upt_conv_Cons)
      ultimately have "rs = repos @ concat (map (\<lambda>p. kept cfg (user_page w (OWNER cfg) p)) [page..<page + Suc k])"
        by (simp add: up)
      then show ?thesis by blast
    qed
  next
    case (Throw e)
    with Suc.prems f show ?thesis by (simp add: discover_pages_Suc del: discover_pages.simps)
  next
    case OutOfFuel
    with Suc.prems f show ?thesis by (simp add: discover_pages_Suc del: discover_pages.simps)
  qed
qed

lemma kept_iff:
  "ref \<in> set (kept cfg d) \<longleftrightarrow>
     (\<exists>ri\<in>set d. (archived ri \<longrightarrow> INCLUDE_ARCHIVED cfg) \<and> (fork ri \<longrightarrow> INCLUDE_FORKS cfg)
        \<and> ref = \<lparr>owner = owner_login ri, name = repo_name ri\<rparr>)"
  by (auto simp: kept_def)

lemma discover_pages_kept:
  "snd (discover_pages fuel cfg w page isOrg repos) = Ok rs \<Longrightarrow> ref \<in> set rs \<Longrightarrow>
   ref \<in> set repos \<or>
   (\<exists>p d. (repos_listForOrg w (OWNER cfg) p = Inr d \<or> repos_listForUser w (OWNER cfg) p = Inr d)
      \<and> ref \<in> set (kept cfg d))"
proof (induction fuel arbitrary: page isOrg repos)
  case 0
  then show ?case by simp
next
  case (Suc fuel)
  obtain tr r where f: "fetch_repos cfg w page isOrg = (tr, r)" by (cases "fetch_repos cfg w page isOrg")
  show ?case
  proof (cases r)
    case (Ok x)
    obtain isOrg' data where x: "x = (isOrg', data)" by (cases x)
    show ?thesis
    proof (cases data)
      case None
      with Suc.prems f Ok x show ?thesis
        by (simp add: discover_pages_Suc del: discover_pages.simps)
    next
      case (Some d)
      from f Ok x Some have "snd (fetch_repos cfg w page isOrg) = Ok (isOrg', Some d)" by simp
      note src = fetch_repos_sources [OF this]
      show ?thesis
      proof (cases "d = []")
        case True
        with Suc.prems f Ok x Some show ?thesis
          by (simp add: discover_pages_Suc del: discover_pages.simps)
      next
        case False
        with Suc.prems(1) f Ok x Some
        have "snd (discover_pages fuel cfg w (page + 1) isOrg' (repos @ kept cfg d)) = Ok rs"
          by (simp add: discover_pages_Suc del: discover_pages.simps)
        from Suc.IH [OF this Suc.prems(2)] src show ?thesis by auto
      qed
    qed
  next
    case (Throw e)
    with Suc.prems f show ?thesis by (simp add: discover_pages_Suc del: discover_pages.simps)
  next
    case OutOfFuel
    with Suc.prems f show ?thesis by (simp add: discover_pages_Suc del: discover_pages.simps)
  qed
qed

lemma kept_excluded:
  "archived ri \<and> \<not> INCLUDE_ARCHIVED cfg \<or> fork ri \<and> \<not> INCLUDE_FORKS cfg \<Longrightarrow>
   kept cfg (d1 @ ri # d2) = kept cfg (d1 @ d2)"
  by (auto simp: kept_def)

lemma kept_included:
  "(archived ri \<longrightarrow> INCLUDE_ARCHIVED cfg) \<and> (fork ri \<longrightarrow> INCLUDE_FORKS cfg) \<Longrightarrow>
   kept cfg (d1 @ ri # d2) =
     kept cfg d1 @ \<lparr>owner = owner_login ri, name = repo_name ri\<rparr> # kept cfg d2"
  by (auto simp: kept_def)

lemma fetch_repos_switch:
  assumes "repos_listForOrg w (OWNER cfg) page = Inl err" and "status err = Some 404"
  shows "fetch_repos cfg w page True = fetch_repos cfg w page False"
  by (simp add: fetch_repos_not_found [OF assms])

lemma discover_pages_switch:
  assumes "repos_listForOrg w (OWNER cfg) page = Inl err" and "status err = Some 404"
  shows "discover_pages fuel cfg w page True repos = discover_pages fuel cfg w page False repos"
  by (cases fuel) (simp_all add: fetch_repos_switch [OF assms])

lemma fetch_repos_user_mode:
  assumes "org_answers w (OWNER cfg) page" and "repos_listForUser w (OWNER cfg) page = Inr d"
  shows "fetch_repos cfg w page False =
     ([ListForOrg (OWNER cfg) page, ListForUser (OWNER cfg) page], Ok (False, Some d))"
proof (cases "repos_listForOrg w (OWNER cfg) page")
  case (Inl err)
  with assms(1) have "status err = Some 404" by (simp add: org_answers_def)
  from fetch_repos_not_found [OF Inl this] assms(2) show ?thesis by simp
next
  case (Inr data)
  from fetch_repos_user [OF Inr] assms(2) show ?thesis by simp
qed

lemma discover_pages_user_round:
  assumes "org_answers w (OWNER cfg) page" and "repos_listForUser w (OWNER cfg) page = Inr d"
    and "d \<noteq> []"
  shows "discover_pages (Suc fuel) cfg w page False repos =
     ([ListForOrg (OWNER cfg) page, ListForUser (OWNER cfg) page]
        @ fst (discover_pages fuel cfg w (page + 1) False (repos @ kept cfg d)),
      snd (discover_pages fuel cfg w (page + 1) False (repos @ kept cfg d)))"
  using assms(3)
  by (simp add: discover_pages_Suc fetch_repos_user_mode [OF assms(1,2)] del: discover_pages.simps)

lemma discover_pages_user_end:
  assumes "org_answers w (OWNER cfg) page" and "repos_listForUser w (OWNER cfg) page = Inr []"
  shows "discover_pages (Suc fuel) cfg w page False repos =
     ([ListForOrg (OWNER cfg) page, ListForUser (OWNER cfg) page], Ok repos)"
  by (simp add: discover_pages_Suc fetch_repos_user_mode [OF assms] del: discover_pages.simps)

lemma discover_pages_failed:
  assumes "repos_listForOrg w (OWNER cfg) page = Inl err" and "status err \<noteq> Some 404"
  shows "discover_pages (Suc fuel) cfg w page isOrg repos = ([ListForOrg (OWNER cfg) page], Throw err)"
  by (simp add: discover_pages_Suc fetch_repos_failed [OF assms] del: discover_pages.simps)

lemma discover_pages_org_round:
  assumes "repos_listForOrg w (OWNER cfg) page = Inr d" and "d \<noteq> []"
  shows "discover_pages (Suc fuel) cfg w page True repos =
     (ListForOrg (OWNER cfg) page # fst (discover_pages fuel cfg w (page + 1) True (repos @ kept cfg d)),
      snd (discover_pages fuel cfg w (page + 1) True (repos @ kept cfg d)))"
  using assms(2)
  by (simp add: discover_pages_Suc fetch_repos_org [OF assms(1)] del: discover_pages.simps)

lemma discover_pages_org_end:
  assumes "repos_listForOrg w (OWNER cfg) page = Inr []"
  shows "discover_pages (Suc fuel) cfg w page True repos = ([ListForOrg (OWNER cfg) page], Ok repos)"
  by (simp add: discover_pages_Suc fetch_repos_org [OF assms] del: discover_pages.simps)

text \<open>\<open>k\<close> rounds in user mode, and \<open>j\<close> rounds in organization mode.\<close>

lemma discover_pages_user_rounds:
  assumes "\<forall>p\<in>set [page..<page + k]. org_answers w (OWNER cfg) p
             \<and> (\<exists>d. repos_listForUser w (OWNER cfg) p = Inr d \<and> d \<noteq> [])"
  shows "discover_pages (k + fuel) cfg w page False repos =
     (concat (map (\<lambda>p. [ListForOrg (OWNER cfg) p, ListForUser (OWNER cfg) p]) [page..<page + k])
        @ fst (discover_pages fuel cfg w (page + k) False
                 (repos @ concat (map (\<lambda>p. kept cfg (user_page w (OWNER cfg) p)) [page..<page + k]))),
      snd (discover_pages fuel cfg w (page + k) False
             (repos @ concat (map (\<lambda>p. kept cfg (user_page w (OWNER cfg) p)) [page..<page + k]))))"
  using assms
proof (induction k arbitrary: page repos)
  case 0
  show ?case by simp
next
  case (Suc k)
  have "page \<in> set [page..<page + Suc k]" unfolding set_upt by simp
  with Suc.prems obtain d where d: "org_answers w (OWNER cfg) page"
      "repos_listForUser w (OWNER cfg) page = Inr d" "d \<noteq> []"
    by blast
  then have up: "user_page w (OWNER cfg) page = d" by (simp add: user_page_def)
  from Suc.prems have rest: "\<forall>p\<in>set [page + 1..<page + 1 + k]. org_answers w (OWNER cfg) p
             \<and> (\<exists>d. repos_listForUser w (OWNER cfg) p = Inr d \<and> d \<noteq> [])"
    by auto
  have l: "[page..<Suc (page + k)] = page # [Suc page..<Suc (page + k)]"
    by (simp add: upt_conv_Cons del: upt_Suc)
  show ?case
    using discover_pages_user_round [OF d, of "k + fuel" repos]
      Suc.IH [OF rest, of "repos @ kept cfg d"]
    by (simp add: l up del: upt_Suc)
qed

lemma discover_pages_org_rounds:
  assumes "\<forall>p\<in>set [page..<page + j]. \<exists>d. repos_listForOrg w (OWNER cfg) p = Inr d \<and> d \<noteq> []"
  shows "discover_pages (j + fuel) cfg w page True repos =
     (map (ListForOrg (OWNER cfg)) [page..<page + j]
        @ fst (discover_pages fuel cfg w (page + j) True
                 (repos @ concat (map (\<lambda>p. kept cfg (org_page w (OWNER cfg) p)) [page..<page + j]))),
      snd (discover_pages fuel cfg w (page + j) True
             (repos @ concat (map (\<lambda>p. kept cfg (org_page w (OWNER cfg) p)) [page..<page + j]))))"
  using assms
proof (induction j arbitrary: page repos)
  case 0
  show ?case by simp
next
  case (Suc j)
  have "page \<in> set [page..<page + Suc j]" unfolding set_upt by simp
  with Suc.prems obtain d where d: "repos_listForOrg w (OWNER cfg) page = Inr d" "d \<noteq> []"
    by blast
  then have op: "org_page w (OWNER cfg) page = d" by (simp add: org_page_def)
  from Suc.prems have rest: "\<forall>p\<in>set [page + 1..<page + 1 + j].
      \<exists>d. repos_listForOrg w (OWNER cfg) p = Inr d \<and> d \<noteq> []"
    by auto
  have l: "[page..<Suc (page + j)] = page # [Suc page..<Suc (page + j)]"
    by (simp add: upt_conv_Cons del: upt_Suc)
  show ?case
    using discover_pages_org_round [OF d, of "j + fuel" repos]
      Suc.IH [OF rest, of "repos @ kept cfg d"]
    by (simp add: l op del: upt_Suc)
qed

lemma discover_pages_fallback:
  assumes org: "\<forall>p\<in>set [page..<page + j]. \<exists>d. repos_listForOrg w (OWNER cfg) p = Inr d \<and> d \<noteq> []"
    and nf: "repos_listForOrg w (OWNER cfg) (page + j) = Inl err" "status err = Some 404"
    and usr: "\<forall>p\<in>set [page + j..<page + j + k]. org_answers w (OWNER cfg) p
               \<and> (\<exists>d. repos_listForUser w (OWNER cfg) p = Inr d \<and> d \<noteq> [])"
  shows "discover_pages (j + (k + fuel)) cfg w page True repos =
     (map (ListForOrg (OWNER cfg)) [page..<page + j]
        @ concat (map (\<lambda>p. [ListForOrg (OWNER cfg) p, ListForUser (OWNER cfg) p]) [page + j..<page + j + k])
        @ fst (discover_pages fuel cfg w (page + j + k) False
                 (repos @ concat (map (\<lambda>p. kept cfg (org_page w (OWNER cfg) p)) [page..<page + j])
                    @ concat (map (\<lambda>p. kept cfg (user_page w (OWNER cfg) p)) [page + j..<page + j + k]))),
      snd (discover_pages fuel cfg w (page + j + k) False
             (repos @ concat (map (\<lambda>p. kept cfg (org_page w (OWNER cfg) p)) [page..<page + j])
                @ concat (map (\<lambda>p. kept cfg (user_page w (OWNER cfg) p)) [page + j..<page + j + k]))))"
  unfolding discover_pages_org_rounds [OF org] discover_pages_switch [OF nf]
    discover_pages_user_rounds [OF usr]
  by simp

lemma autoDiscoverRepos_pages:
  "OWNER cfg \<noteq> [] \<Longrightarrow>
   autoDiscoverRepos fuel cfg w =
     (Logged [[Str (js ''Auto-discovering repositories for owner'')], [Str (OWNER cfg)]]
        # fst (discover_pages fuel cfg w 1 True []),
      snd (discover_pages fuel cfg w 1 True []))"
  by (cases "discover_pages fuel cfg w 1 True []") (simp add: autoDiscoverRepos_def seq_def log_def)

lemma autoDiscoverRepos_fallback:
  assumes "OWNER cfg \<noteq> []"
    and org: "\<forall>p\<in>set [1..<Suc j]. \<exists>d. repos_listForOrg w (OWNER cfg) p = Inr d \<and> d \<noteq> []"
    and nf: "repos_listForOrg w (OWNER cfg) (Suc j) = Inl err" "status err = Some 404"
    and usr: "\<forall>p\<in>set [Suc j..<Suc j + k]. org_answers w (OWNER cfg) p
               \<and> (\<exists>d. repos_listForUser w (OWNER cfg) p = Inr d \<and> d \<noteq> [])"
    and fin: "org_answers w (OWNER cfg) (Suc j + k)" "repos_listForUser w (OWNER cfg) (Suc j + k) = Inr []"
    and fuel: "j + k < fuel"
  shows "autoDiscoverRepos fuel cfg w =
     (Logged [[Str (js ''Auto-discovering repositories for owner'')], [Str (OWNER cfg)]]
        # map (ListForOrg (OWNER cfg)) [1..<Suc j]
        @ concat (map (\<lambda>p. [ListForOrg (OWNER cfg) p, ListForUser (OWNER cfg) p]) [Suc j..<Suc (Suc j + k)]),
      Ok (concat (map (\<lambda>p. kept cfg (org_page w (OWNER cfg) p)) [1..<Suc j])
          @ concat (map (\<lambda>p. kept cfg (user_page w (OWNER cfg) p)) [Suc j..<Suc j + k])))"
proof -
  from fuel obtain f where f: "fuel = j + (k + Suc f)"
    by (metis add.assoc less_iff_Suc_add add_Suc_right)
  have o: "\<forall>p\<in>set [1..<1 + j]. \<exists>d. repos_listForOrg w (OWNER cfg) p = Inr d \<and> d \<noteq> []"
    using org by simp
  have n: "repos_listForOrg w (OWNER cfg) (1 + j) = Inl err" using nf(1) by simp
  have u: "\<forall>p\<in>set [1 + j..<1 + j + k]. org_answers w (OWNER cfg) p
               \<and> (\<exists>d. repos_listForUser w (OWNER cfg) p = Inr d \<and> d \<noteq> [])"
    using usr by simp
  have e: "org_answers w (OWNER cfg) (1 + j + k)" "repos_listForUser w (OWNER cfg) (1 + j + k) = Inr []"
    using fin by simp_all
  show ?thesis
    unfolding autoDiscoverRepos_pages [OF assms(1)] f
      discover_pages_fallback [OF o n nf(2) u] discover_pages_user_end [OF e]
    by simp
qed

lemma autoDiscoverRepos_aborts:
  assumes "OWNER cfg \<noteq> []"
    and org: "\<forall>p\<in>set [1..<Suc j]. \<exists>d. repos_listForOrg w (OWNER cfg) p = Inr d \<and> d \<noteq> []"
    and nf: "repos_listForOrg w (OWNER cfg) (Suc j) = Inl err" "status err = Some 404"
    and usr: "\<forall>p\<in>set [Suc j..<Suc j + k]. org_answers w (OWNER cfg) p
               \<and> (\<exists>d. repos_listForUser w (OWNER cfg) p = Inr d \<and> d \<noteq> [])"
    and fin: "repos_listForOrg w (OWNER cfg) (Suc j + k) = Inl err'" "status err' \<noteq> Some 404"
    and fuel: "j + k < fuel"
  shows "autoDiscoverRepos fuel cfg w =
     (Logged [[Str (js ''Auto-discovering repositories for owner'')], [Str (OWNER cfg)]]
        # map (ListForOrg (OWNER cfg)) [1..<Suc j]
        @ concat (map (\<lambda>p. [ListForOrg (OWNER cfg) p, ListForUser (OWNER cfg) p]) [Suc j..<Suc j + k])
        @ [ListForOrg (OWNER cfg) (Suc j + k)],
      Throw err')"
proof -
  from fuel obtain f where f: "fuel = j + (k + Suc f)"
    by (metis add.assoc less_iff_Suc_add add_Suc_right)
  have o: "\<forall>p\<in>set [1..<1 + j]. \<exists>d. repos_listForOrg w (OWNER cfg) p = Inr d \<and> d \<noteq> []"
    using org by simp
  have n: "repos_listForOrg w (OWNER cfg) (1 + j) = Inl err" using nf(1) by simp
  have u: "\<forall>p\<in>set [1 + j..<1 + j + k]. org_answers w (OWNER cfg) p
               \<and> (\<exists>d. repos_listForUser w (OWNER cfg) p = Inr d \<and> d \<noteq> [])"
    using usr by simp
  have e: "repos_listForOrg w (OWNER cfg) (1 + j + k) = Inl err'" using fin(1) by simp
  show ?thesis
    unfolding autoDiscoverRepos_pages [OF assms(1)] f
      discover_pages_fallback [OF o n nf(2) u] discover_pages_failed [OF e fin(2)]
    by simp
qed

lemma autoDiscoverRepos_org:
  assumes "OWNER cfg \<noteq> []"
    and org: "\<forall>p\<in>set [1..<Suc j]. \<exists>d. repos_listForOrg w (OWNER cfg) p = Inr d \<and> d \<noteq> []"
    and fin: "repos_listForOrg w (OWNER cfg) (Suc j) = Inr []"
    and fuel: "j < fuel"
  shows "autoDiscoverRepos fuel cfg w =
     (Logged [[Str (js ''Auto-discovering repositories for owner'')], [Str (OWNER cfg)]]
        # map (ListForOrg (OWNER cfg)) [1..<Suc (Suc j)],
      Ok (concat (map (\<lambda>p. kept cfg (org_page w (OWNER cfg) p)) [1..<Suc j])))"
proof -
  from fuel obtain f where f: "fuel = j + Suc f"
    by (metis less_iff_Suc_add add_Suc_right)
  have o: "\<forall>p\<in>set [1..<1 + j]. \<exists>d. repos_listForOrg w (OWNER cfg) p = Inr d \<and> d \<noteq> []"
    using org by simp
  have e: "repos_listForOrg w (OWNER cfg) (1 + j) = Inr []" using fin by simp
  show ?thesis
    unfolding autoDiscoverRepos_pages [OF assms(1)] f
      discover_pages_org_rounds [OF o] discover_pages_org_end [OF e]
    by simp
qed

lemma autoDiscoverRepos_kept:
  assumes "snd (autoDiscoverRepos fuel cfg w) = Ok rs" and "ref \<in> set rs"
  shows "\<exists>p d. (repos_listForOrg w (OWNER cfg) p = Inr d \<or> repos_listForUser w (OWNER cfg) p = Inr d)
      \<and> (\<exists>ri\<in>set d. (archived ri \<longrightarrow> INCLUDE_ARCHIVED cfg) \<and> (fork ri \<longrightarrow> INCLUDE_FORKS cfg)
            \<and> ref = \<lparr>owner = owner_login ri, name = repo_name ri\<rparr>)"
proof -
  from assms(1) have "snd (discover_pages fuel cfg w 1 True []) = Ok rs"
    by (auto simp: autoDiscoverRepos_def snd_seq log_def split: if_splits)
  from discover_pages_kept [OF this assms(2)] show ?thesis
    unfolding kept_iff by simp
qed

text \<open>
  Claim C8, as amended. The organization listing is requested first in every round of
  the discovery, also after a fallback. While it returns pages that are not empty, the
  discovery is in organization mode and takes them. When it is not found on some page,
  that page and every later page are taken from the user listing, whatever the
  organization listing answers from then on, as long as it answers (a page, or not
  found); the discovery ends at the first empty page of the user listing and returns the
  kept items of the pages taken, in order. A failure of the organization listing other
  than not found ends the discovery with that error in whatever round it occurs, also
  after the fallback. An organization whose listing is found ends at its first empty
  page. What a page keeps leaves out the items flagged as forks unless forks are
  included and the items flagged as archived unless archived repositories are included,
  and every repository of a result comes from an item that was kept.
\<close>

theorem discovery_mode_sticky:
  "(OWNER cfg \<noteq> []
      \<and> (\<forall>p\<in>set [1..<Suc j]. \<exists>d. repos_listForOrg w (OWNER cfg) p = Inr d \<and> d \<noteq> [])
      \<and> repos_listForOrg w (OWNER cfg) (Suc j) = Inl err \<and> status err = Some 404
      \<and> (\<forall>p\<in>set [Suc j..<Suc j + k]. org_answers w (OWNER cfg) p
             \<and> (\<exists>d. repos_listForUser w (OWNER cfg) p = Inr d \<and> d \<noteq> []))
      \<and> org_answers w (OWNER cfg) (Suc j + k)
      \<and> repos_listForUser w (OWNER cfg) (Suc j + k) = Inr []
      \<and> j + k < fuel \<longrightarrow>
      autoDiscoverRepos fuel cfg w =
        (Logged [[Str (js ''Auto-discovering repositories for owner'')], [Str (OWNER cfg)]]
           # map (ListForOrg (OWNER cfg)) [1..<Suc j]
           @ concat (map (\<lambda>p. [ListForOrg (OWNER cfg) p, ListForUser (OWNER cfg) p])
                       [Suc j..<Suc (Suc j + k)]),
         Ok (concat (map (\<lambda>p. kept cfg (org_page w (OWNER cfg) p)) [1..<Suc j])
             @ concat (map (\<lambda>p. kept cfg (user_page w (OWNER cfg) p)) [Suc j..<Suc j + k]))))
   \<and> (OWNER cfg \<noteq> []
      \<and> (\<forall>p\<in>set [1..<Suc j]. \<exists>d. repos_listForOrg w (OWNER cfg) p = Inr d \<and> d \<noteq> [])
      \<and> repos_listForOrg w (OWNER cfg) (Suc j) = Inl err \<and> status err = Some 404
      \<and> (\<forall>p\<in>set [Suc j..<Suc j + k]. org_answers w (OWNER cfg) p
             \<and> (\<exists>d. repos_listForUser w (OWNER cfg) p = Inr d \<and> d \<noteq> []))
      \<and> repos_listForOrg w (OWNER cfg) (Suc j + k) = Inl err' \<and> status err' \<noteq> Some 404
      \<and> j + k < fuel \<longrightarrow>
      autoDiscoverRepos fuel cfg w =
        (Logged [[Str (js ''Auto-discovering repositories for owner'')], [Str (OWNER cfg)]]
           # map (ListForOrg (OWNER cfg)) [1..<Suc j]
           @ concat (map (\<lambda>p. [ListForOrg (OWNER cfg) p, ListForUser (OWNER cfg) p])
                       [Suc j..<Suc j + k])
           @ [ListForOrg (OWNER cfg) (Suc j + k)],
         Throw err'))
   \<and> (OWNER cfg \<noteq> []
      \<and> (\<forall>p\<in>set [1..<Suc j]. \<exists>d. repos_listForOrg w (OWNER cfg) p = Inr d \<and> d \<noteq> [])
      \<and> repos_listForOrg w (OWNER cfg) (Suc j) = Inr [] \<and> j < fuel \<longrightarrow>
      autoDiscoverRepos fuel cfg w =
        (Logged [[Str (js ''Auto-discovering repositories for owner'')], [Str (OWNER cfg)]]
           # map (ListForOrg (OWNER cfg)) [1..<Suc (Suc j)],
         Ok (concat (map (\<lambda>p. kept cfg (org_page w (OWNER cfg) p)) [1..<Suc j]))))
   \<and> (repos_listForOrg w (OWNER cfg) page = Inl err' \<and> status err' \<noteq> Some 404 \<longrightarrow>
        discover_pages (Suc fuel) cfg w page isOrg repos = ([ListForOrg (OWNER cfg) page], Throw err'))
   \<and> (snd (autoDiscoverRepos fuel cfg w) = Ok rs \<and> ref \<in> set rs \<longrightarrow>
        (\<exists>p d. (repos_listForOrg w (OWNER cfg) p = Inr d \<or> repos_listForUser w (OWNER cfg) p = Inr d)
           \<and> (\<exists>ri\<in>set d. (archived ri \<longrightarrow> INCLUDE_ARCHIVED cfg) \<and> (fork ri \<longrightarrow> INCLUDE_FORKS cfg)
                 \<and> ref = \<lparr>owner = owner_login ri, name = repo_name ri\<rparr>)))
   \<and> (archived ri4 \<and> \<not> INCLUDE_ARCHIVED cfg \<or> fork ri4 \<and> \<not> INCLUDE_FORKS cfg \<longrightarrow>
        kept cfg (d1 @ ri4 # d2) = kept cfg (d1 @ d2))
   \<and> ((archived ri5 \<longrightarrow> INCLUDE_ARCHIVED cfg) \<and> (fork ri5 \<longrightarrow> INCLUDE_FORKS cfg) \<longrightarrow>
        kept cfg (d3 @ ri5 # d4) =
          kept cfg d3 @ \<lparr>owner = owner_login ri5, name = repo_name ri5\<rparr> # kept cfg d4)"
proof (intro conjI impI)
  assume "OWNER cfg \<noteq> []
      \<and> (\<forall>p\<in>set [1..<Suc j]. \<exists>d. repos_listForOrg w (OWNER cfg) p = Inr d \<and> d \<noteq> [])
      \<and> repos_listForOrg w (OWNER cfg) (Suc j) = Inl err \<and> status err = Some 404
      \<and> (\<forall>p\<in>set [Suc j..<Suc j + k]. org_answers w (OWNER cfg) p
             \<and> (\<exists>d. repos_listForUser w (OWNER cfg) p = Inr d \<and> d \<noteq> []))
      \<and> org_answers w (OWNER cfg) (Suc j + k)
      \<and> repos_listForUser w (OWNER cfg) (Suc j + k) = Inr []
      \<and> j + k < fuel"
  then show "autoDiscoverRepos fuel cfg w =
        (Logged [[Str (js ''Auto-discovering repositories for owner'')], [Str (OWNER cfg)]]
           # map (ListForOrg (OWNER cfg)) [1..<Suc j]
           @ concat (map (\<lambda>p. [ListForOrg (OWNER cfg) p, ListForUser (OWNER cfg) p])
                       [Suc j..<Suc (Suc j + k)]),
         Ok (concat (map (\<lambda>p. kept cfg (org_page w (OWNER cfg) p)) [1..<Suc j])
             @ concat (map (\<lambda>p. kept cfg (user_page w (OWNER cfg) p)) [Suc j..<Suc j + k])))"
    using autoDiscoverRepos_fallback [of cfg j w err k fuel] by blast
next
  assume "OWNER cfg \<noteq> []
      \<and> (\<forall>p\<in>set [1..<Suc j]. \<exists>d. repos_listForOrg w (OWNER cfg) p = Inr d \<and> d \<noteq> [])
      \<and> repos_listForOrg w (OWNER cfg) (Suc j) = Inl err \<and> status err = Some 404
      \<and> (\<forall>p\<in>set [Suc j..<Suc j + k]. org_answers w (OWNER cfg) p
             \<and> (\<exists>d. repos_listForUser w (OWNER cfg) p = Inr d \<and> d \<noteq> []))
      \<and> repos_listForOrg w (OWNER cfg) (Suc j + k) = Inl err' \<and> status err' \<noteq> Some 404
      \<and> j + k < fuel"
  then show "autoDiscoverRepos fuel cfg w =
        (Logged [[Str (js ''Auto-discovering repositories for owner'')], [Str (OWNER cfg)]]
           # map (ListForOrg (OWNER cfg)) [1..<Suc j]
           @ concat (map (\<lambda>p. [ListForOrg (OWNER cfg) p, ListForUser (OWNER cfg) p])
                       [Suc j..<Suc j + k])
           @ [ListForOrg (OWNER cfg) (Suc j + k)],
         Throw err')"
    using autoDiscoverRepos_aborts [of cfg j w err k err' fuel] by blast
next
  assume "OWNER cfg \<noteq> []
      \<and> (\<forall>p\<in>set [1..<Suc j]. \<exists>d. repos_listForOrg w (OWNER cfg) p = Inr d \<and> d \<noteq> [])
      \<and> repos_listForOrg w (OWNER cfg) (Suc j) = Inr [] \<and> j < fuel"
  then show "autoDiscoverRepos fuel cfg w =
        (Logged [[Str (js ''Auto-discovering repositories for owner'')], [Str (OWNER cfg)]]
           # map (ListForOrg (OWNER cfg)) [1..<Suc (Suc j)],
         Ok (concat (map (\<lambda>p. kept cfg (org_page w (OWNER cfg) p)) [1..<Suc j])))"
    using autoDiscoverRepos_org [of cfg j w fuel] by blast
next
  assume "repos_listForOrg w (OWNER cfg) page = Inl err' \<and> status err' \<noteq> Some 404"
  then show "discover_pages (Suc fuel) cfg w page isOrg repos = ([ListForOrg (OWNER cfg) page], Throw err')"
    using discover_pages_failed by blast
next
  assume "snd (autoDiscoverRepos fuel cfg w) = Ok rs \<and> ref \<in> set rs"
  then show "\<exists>p d. (repos_listForOrg w (OWNER cfg) p = Inr d \<or> repos_listForUser w (OWNER cfg) p = Inr d)
           \<and> (\<exists>ri\<in>set d. (archived ri \<longrightarrow> INCLUDE_ARCHIVED cfg) \<and> (fork ri \<longrightarrow> INCLUDE_FORKS cfg)
                 \<and> ref = \<lparr>owner = owner_login ri, name = repo_name ri\<rparr>)"
    using autoDiscoverRepos_kept [of fuel cfg w rs ref] by blast
next
  assume "archived ri4 \<and> \<not> INCLUDE_ARCHIVED cfg \<or> fork ri4 \<and> \<not> INCLUDE_FORKS cfg"
  then show "kept cfg (d1 @ ri4 # d2) = kept cfg (d1 @ d2)"
    by (rule kept_excluded)
next
  assume "(archived ri5 \<longrightarrow> INCLUDE_ARCHIVED cfg) \<and> (fork ri5 \<longrightarrow> INCLUDE_FORKS cfg)"
  then show "kept cfg (d3 @ ri5 # d4) =
          kept cfg d3 @ \<lparr>owner = owner_login ri5, name = repo_name ri5\<rparr> # kept cfg d4"
    by (rule kept_included)
qed

lemmas discover_defs = kept_def user_page_def org_page_def org_answers_def
  cfg_acme_def quiet_def world_user_def world_flaky_def world_org_def
  web_info_def fork_info_def attic_info_def org_info_def js_def

theorem discovery_mode_sticky_witness:
  "OWNER cfg_acme = js ''acme''
   \<and> repos_listForOrg world_user (js ''acme'') 1 = Inl (RequestError 404 (js ''Not Found''))
   \<and> repos_listForOrg world_user (js ''acme'') 2 = Inr [org_info]
   \<and> repos_listForUser world_user (js ''acme'') 1 = Inr [web_info, fork_info]
   \<and> repos_listForUser world_user (js ''acme'') 2 = Inr [attic_info, web_info]
   \<and> repos_listForUser world_user (js ''acme'') 3 = Inr []
   \<and> autoDiscoverRepos (Suc (Suc (Suc 0))) cfg_acme world_user =
       ([Logged [[Str (js ''Auto-discovering repositories for owner'')], [Str (js ''acme'')]],
         ListForOrg (js ''acme'') 1, ListForUser (js ''acme'') 1,
         ListForOrg (js ''acme'') 2, ListForUser (js ''acme'') 2,
         ListForOrg (js ''acme'') 3, ListForUser (js ''acme'') 3],
        Ok [\<lparr>owner = js ''acme'', name = js ''web''\<rparr>, \<lparr>owner = js ''acme'', name = js ''web''\<rparr>])
   \<and> repos_listForOrg world_flaky (js ''acme'') 2 = Inl (RequestError 500 (js ''Server Error''))
   \<and> autoDiscoverRepos (Suc (Suc (Suc 0))) cfg_acme world_flaky =
       ([Logged [[Str (js ''Auto-discovering repositories for owner'')], [Str (js ''acme'')]],
         ListForOrg (js ''acme'') 1, ListForUser (js ''acme'') 1, ListForOrg (js ''acme'') 2],
        Throw (RequestError 500 (js ''Server Error'')))
   \<and> discover_pages (Suc 0) cfg_acme world_flaky 2 False [\<lparr>owner = js ''acme'', name = js ''web''\<rparr>] =
       ([ListForOrg (js ''acme'') 2], Throw (RequestError 500 (js ''Server Error'')))
   \<and> repos_listForOrg world_org (js ''acme'') 1 = Inr [web_info, attic_info, fork_info, org_info]
   \<and> autoDiscoverRepos (Suc (Suc 0)) cfg_acme world_org =
       ([Logged [[Str (js ''Auto-discovering repositories for owner'')], [Str (js ''acme'')]],
         ListForOrg (js ''acme'') 1, ListForOrg (js ''acme'') 2],
        Ok [\<lparr>owner = js ''acme'', name = js ''web''\<rparr>, \<lparr>owner = js ''acme'', name = js ''org-only''\<rparr>])
   \<and> (\<exists>p d. (repos_listForOrg world_org (OWNER cfg_acme) p = Inr d
              \<or> repos_listForUser world_org (OWNER cfg_acme) p = Inr d)
          \<and> (\<exists>ri\<in>set d. (archived ri \<longrightarrow> INCLUDE_ARCHIVED cfg_acme) \<and> (fork ri \<longrightarrow> INCLUDE_FORKS cfg_acme)
                \<and> \<lparr>owner = js ''acme'', name = js ''org-only''\<rparr> = \<lparr>owner = owner_login ri, name = repo_name ri\<rparr>))
   \<and> (fork fork_info \<and> \<not> INCLUDE_FORKS cfg_acme)
   \<and> kept cfg_acme ([web_info] @ fork_info # []) = kept cfg_acme ([web_info] @ [])
   \<and> kept cfg_acme ([] @ web_info # [fork_info]) =
        kept cfg_acme [] @ \<lparr>owner = js ''acme'', name = js ''web''\<rparr> # kept cfg_acme [fork_info]"
proof -
  have n: "OWNER cfg_acme = js ''acme''" "owner_login web_info = js ''acme''" "repo_name web_info = js ''web''"
    by (simp_all add: discover_defs)
  have o: "repos_listForOrg world_user (js ''acme'') 1 = Inl (RequestError 404 (js ''Not Found''))"
    "repos_listForOrg world_user (js ''acme'') 2 = Inr [org_info]"
    "repos_listForOrg world_flaky (js ''acme'') 2 = Inl (RequestError 500 (js ''Server Error''))"
    "repos_listForOrg world_org (js ''acme'') 1 = Inr [web_info, attic_info, fork_info, org_info]"
    by (simp_all add: discover_defs)
  have u: "repos_listForUser world_user (js ''acme'') 1 = Inr [web_info, fork_info]"
    "repos_listForUser world_user (js ''acme'') 2 = Inr [attic_info, web_info]"
    "repos_listForUser world_user (js ''acme'') 3 = Inr []"
    by (simp_all add: discover_defs)
  have h1: "OWNER cfg_acme \<noteq> []
      \<and> (\<forall>p\<in>set [1..<Suc 0]. \<exists>d. repos_listForOrg world_user (OWNER cfg_acme) p = Inr d \<and> d \<noteq> [])
      \<and> repos_listForOrg world_user (OWNER cfg_acme) (Suc 0) = Inl (RequestError 404 (js ''Not Found''))
      \<and> status (RequestError 404 (js ''Not Found'')) = Some 404
      \<and> (\<forall>p\<in>set [Suc 0..<Suc 0 + 2]. org_answers world_user (OWNER cfg_acme) p
             \<and> (\<exists>d. repos_listForUser world_user (OWNER cfg_acme) p = Inr d \<and> d \<noteq> []))
      \<and> org_answers world_user (OWNER cfg_acme) (Suc 0 + 2)
      \<and> repos_listForUser world_user (OWNER cfg_acme) (Suc 0 + 2) = Inr []
      \<and> 0 + 2 < Suc (Suc (Suc 0))"
    by (simp add: discover_defs upt_rec)
  have h2: "OWNER cfg_acme \<noteq> []
      \<and> (\<forall>p\<in>set [1..<Suc 0]. \<exists>d. repos_listForOrg world_flaky (OWNER cfg_acme) p = Inr d \<and> d \<noteq> [])
      \<and> repos_listForOrg world_flaky (OWNER cfg_acme) (Suc 0) = Inl (RequestError 404 (js ''Not Found''))
      \<and> status (RequestError 404 (js ''Not Found'')) = Some 404
      \<and> (\<forall>p\<in>set [Suc 0..<Suc 0 + 1]. org_answers world_flaky (OWNER cfg_acme) p
             \<and> (\<exists>d. repos_listForUser world_flaky (OWNER cfg_acme) p = Inr d \<and> d \<noteq> []))
      \<and> repos_listForOrg world_flaky (OWNER cfg_acme) (Suc 0 + 1) = Inl (RequestError 500 (js ''Server Error''))
      \<and> status (RequestError 500 (js ''Server Error'')) \<noteq> Some 404
      \<and> 0 + 1 < Suc (Suc (Suc 0))"
    by (simp add: discover_defs upt_rec)
  have h3: "OWNER cfg_acme \<noteq> []
      \<and> (\<forall>p\<in>set [1..<Suc 1]. \<exists>d. repos_listForOrg world_org (OWNER cfg_acme) p = Inr d \<and> d \<noteq> [])
      \<and> repos_listForOrg world_org (OWNER cfg_acme) (Suc 1) = Inr [] \<and> 1 < Suc (Suc 0)"
    by (simp add: discover_defs upt_rec)
  have h4: "repos_listForOrg world_flaky (OWNER cfg_acme) 2 = Inl (RequestError 500 (js ''Server Error''))
      \<and> status (RequestError 500 (js ''Server Error'')) \<noteq> Some 404"
    by (simp add: discover_defs)
  have h6: "fork fork_info \<and> \<not> INCLUDE_FORKS cfg_acme"
    by (simp add: discover_defs)
  have h7: "(archived web_info \<longrightarrow> INCLUDE_ARCHIVED cfg_acme) \<and> (fork web_info \<longrightarrow> INCLUDE_FORKS cfg_acme)"
    by (simp add: discover_defs)
  note t1 = discovery_mode_sticky [where cfg=cfg_acme and w=world_user and j=0 and k=2
      and err="RequestError 404 (js ''Not Found'')" and fuel="Suc (Suc (Suc 0))",
      THEN conjunct1, THEN mp, OF h1]
  note t2 = discovery_mode_sticky [where cfg=cfg_acme and w=world_flaky and j=0 and k=1
      and err="RequestError 404 (js ''Not Found'')" and err'="RequestError 500 (js ''Server Error'')"
      and fuel="Suc (Suc (Suc 0))",
      THEN conjunct2, THEN conjunct1, THEN mp, OF h2]
  note t3 = discovery_mode_sticky [where cfg=cfg_acme and w=world_org and j=1 and fuel="Suc (Suc 0)",
      THEN conjunct2, THEN conjunct2, THEN conjunct1, THEN mp, OF h3]
  note t4 = discovery_mode_sticky [where cfg=cfg_acme and w=world_flaky and page=2
      and err'="RequestError 500 (js ''Server Error'')" and fuel=0 and isOrg=False
        and repos="[\<lparr>owner = js ''acme'', name = js ''web''\<rparr>]",
      THEN conjunct2, THEN conjunct2, THEN conjunct2, THEN conjunct1, THEN mp, OF h4]
  note t6 = discovery_mode_sticky [where cfg=cfg_acme and ?ri4.0=fork_info and ?d1.0="[web_info]"
      and ?d2.0="[]",
      THEN conjunct2, THEN conjunct2, THEN conjunct2, THEN conjunct2, THEN conjunct2,
      THEN conjunct1, THEN mp, OF disjI2, OF h6]
  note t7 = discovery_mode_sticky [where cfg=cfg_acme and ?ri5.0=web_info and ?d3.0="[]"
      and ?d4.0="[fork_info]",
      THEN conjunct2, THEN conjunct2, THEN conjunct2, THEN conjunct2, THEN conjunct2,
      THEN conjunct2, THEN mp, OF h7]
  from t1 have c1: "autoDiscoverRepos (Suc (Suc (Suc 0))) cfg_acme world_user =
       ([Logged [[Str (js ''Auto-discovering repositories for owner'')], [Str (js ''acme'')]],
         ListForOrg (js ''acme'') 1, ListForUser (js ''acme'') 1,
         ListForOrg (js ''acme'') 2, ListForUser (js ''acme'') 2,
         ListForOrg (js ''acme'') 3, ListForUser (js ''acme'') 3],
        Ok [\<lparr>owner = js ''acme'', name = js ''web''\<rparr>, \<lparr>owner = js ''acme'', name = js ''web''\<rparr>])"
    by (simp add: discover_defs upt_rec)
  from t2 have c2: "autoDiscoverRepos (Suc (Suc (Suc 0))) cfg_acme world_flaky =
       ([Logged [[Str (js ''Auto-discovering repositories for owner'')], [Str (js ''acme'')]],
         ListForOrg (js ''acme'') 1, ListForUser (js ''acme'') 1, ListForOrg (js ''acme'') 2],
        Throw (RequestError 500 (js ''Server Error'')))"
    by (simp add: discover_defs upt_rec)
  from t3 have c3: "autoDiscoverRepos (Suc (Suc 0)) cfg_acme world_org =
       ([Logged [[Str (js ''Auto-discovering repositories for owner'')], [Str (js ''acme'')]],
         ListForOrg (js ''acme'') 1, ListForOrg (js ''acme'') 2],
        Ok [\<lparr>owner = js ''acme'', name = js ''web''\<rparr>, \<lparr>owner = js ''acme'', name = js ''org-only''\<rparr>])"
    by (simp add: discover_defs upt_rec)
  from t4 have c4: "discover_pages (Suc 0) cfg_acme world_flaky 2 False [\<lparr>owner = js ''acme'', name = js ''web''\<rparr>] =
       ([ListForOrg (js ''acme'') 2], Throw (RequestError 500 (js ''Server Error'')))"
    by (simp add: n)
  have m: "snd (autoDiscoverRepos (Suc (Suc 0)) cfg_acme world_org) =
        Ok [\<lparr>owner = js ''acme'', name = js ''web''\<rparr>, \<lparr>owner = js ''acme'', name = js ''org-only''\<rparr>]
      \<and> \<lparr>owner = js ''acme'', name = js ''org-only''\<rparr>
          \<in> set [\<lparr>owner = js ''acme'', name = js ''web''\<rparr>, \<lparr>owner = js ''acme'', name = js ''org-only''\<rparr>]"
    by (simp add: c3)
  note c5 = discovery_mode_sticky [where cfg=cfg_acme and w=world_org and fuel="Suc (Suc 0)"
      and rs="[\<lparr>owner = js ''acme'', name = js ''web''\<rparr>, \<lparr>owner = js ''acme'', name = js ''org-only''\<rparr>]"
      and ref="\<lparr>owner = js ''acme'', name = js ''org-only''\<rparr>",
      THEN conjunct2, THEN conjunct2, THEN conjunct2, THEN conjunct2, THEN conjunct1, THEN mp, OF m]
  note c6 = t6
  from t7 have c7: "kept cfg_acme ([] @ web_info # [fork_info]) =
        kept cfg_acme [] @ \<lparr>owner = js ''acme'', name = js ''web''\<rparr> # kept cfg_acme [fork_info]"
    by (simp add: n)
  from n(1) o u h6 c1 c2 c3 c4 c5 c6 c7 show ?thesis by blast
qed

text \<open>
  Claim C8 as stated fails: after the fallback the mode is not held without asking
  again, and not every later page is taken from the user listing. For the user account
  \<open>acme\<close> the organization listing is not found on page 1, so page 1 is taken from the
  user listing; the user listing has a second page, but the organization listing is
  requested again for page 2, fails with status 500, and the discovery ends with that
  error before the user listing is asked for its page 2.
\<close>

theorem org_listing_asked_again_counterexample:
  "OWNER cfg_acme = js ''acme''
   \<and> repos_listForOrg world_flaky (js ''acme'') 1 = Inl (RequestError 404 (js ''Not Found''))
   \<and> repos_listForUser world_flaky (js ''acme'') 1 = Inr [web_info, fork_info]
   \<and> repos_listForUser world_flaky (js ''acme'') 2 = Inr [attic_info, web_info]
   \<and> repos_listForUser world_flaky (js ''acme'') 3 = Inr []
   \<and> autoDiscoverRepos (Suc (Suc (Suc 0))) cfg_acme world_flaky =
       ([Logged [[Str (js ''Auto-discovering repositories for owner'')], [Str (js ''acme'')]],
         ListForOrg (js ''acme'') 1, ListForUser (js ''acme'') 1, ListForOrg (js ''acme'') 2],
        Throw (RequestError 500 (js ''Server Error'')))"
  by (simp add: autoDiscoverRepos_def fetch_repos_def seq_def call_def log_def discover_defs)

end
